theory Spec2Isabelle
  imports Complex_Main "HOL-Library.AList"
begin

section \<open>Data model (src/types/index.ts)\<close>

text \<open>
  The TypeScript interfaces become records. A tag is the anonymous
  \<^verbatim>\<open>{name, color}\<close> object of \<^verbatim>\<open>MetroStation.lines\<close>. Field names carry a
  prefix where two interfaces share a field name.
\<close>

record LineTag =
  tag_name :: string
  tag_color :: string

record MetroStation =
  st_name :: string
  st_lines :: "LineTag list"

record MetroLine =
  line_id :: string
  line_name :: string
  line_color :: string
  stations :: "string list"

datatype GameMode = Single | Double

section \<open>JavaScript numbers and arrays\<close>

text \<open>
  JavaScript numbers are IEEE doubles. They are modelled by \<^typ>\<open>real\<close>: every
  operation is the exact one, rounding is not modelled. Indices stay numbers, as in the
  source, so an array read takes a \<^typ>\<open>real\<close> and yields \<open>None\<close> (JavaScript's
  \<^verbatim>\<open>undefined\<close>) unless the number is an integer inside the array.
\<close>

definition js_rem :: "real \<Rightarrow> real \<Rightarrow> real" where
  \<comment> \<open>The \<^verbatim>\<open>%\<close> operator: the remainder takes the sign of the dividend.
      Only used with a positive divisor (a zero divisor gives NaN in JavaScript).\<close>
  "js_rem a b = a - b * of_int (if 0 \<le> a / b then \<lfloor>a / b\<rfloor> else \<lceil>a / b\<rceil>)"

definition js_floor :: "real \<Rightarrow> real" where
  \<comment> \<open>\<^verbatim>\<open>Math.floor\<close>\<close>
  "js_floor x = of_int \<lfloor>x\<rfloor>"

definition js_index :: "'a list \<Rightarrow> real \<Rightarrow> 'a option" where
  \<comment> \<open>\<^verbatim>\<open>xs[i]\<close> for a number \<open>i\<close>\<close>
  "js_index xs i =
     (if 0 \<le> i \<and> i = of_int \<lfloor>i\<rfloor> \<and> nat \<lfloor>i\<rfloor> < length xs
      then Some (xs ! nat \<lfloor>i\<rfloor>) else None)"

definition js_length :: "'a list \<Rightarrow> real" where
  "js_length xs = real (length xs)"

section \<open>The store (src/stores/metro.ts)\<close>

record Store =
  mode :: "GameMode option"
  selectedLine :: "MetroLine option"
  selectedStation :: "MetroStation option"
  isSpinning :: bool
  isInitialized :: bool
  metroData :: "MetroLine list"
  stationIndex :: "MetroStation list"

definition getRandomElement :: "real \<Rightarrow> 'a list \<Rightarrow> 'a option" where
  \<comment> \<open>The first argument is the value drawn by \<^verbatim>\<open>Math.random()\<close>.\<close>
  "getRandomElement r array =
     (if length array = 0 then None
      else let randomIndex = js_floor (r * js_length array)
           in js_index array randomIndex)"

definition selectStation :: "MetroStation \<Rightarrow> Store \<Rightarrow> Store" where
  "selectStation station st = st\<lparr>selectedStation := Some station\<rparr>"

definition stopSpinning :: "Store \<Rightarrow> Store" where
  "stopSpinning st = st\<lparr>isSpinning := False\<rparr>"

definition resetSelection :: "Store \<Rightarrow> Store" where
  "resetSelection st = st\<lparr>selectedLine := None, selectedStation := None\<rparr>"

definition selectRandomLine :: "real \<Rightarrow> Store \<Rightarrow> MetroLine option" where
  "selectRandomLine r st =
     (if length (metroData st) = 0 then None else getRandomElement r (metroData st))"

definition selectRandomStationFromLine :: "real \<Rightarrow> Store \<Rightarrow> MetroLine \<Rightarrow> MetroStation option" where
  "selectRandomStationFromLine r st line =
     (if length (stations line) = 0 then None
      else let stationName = getRandomElement r (stations line)
           in find (\<lambda>s. Some (st_name s) = stationName) (stationIndex st))"

definition selectRandomStation :: "real \<Rightarrow> Store \<Rightarrow> MetroStation option" where
  "selectRandomStation r st =
     (if length (stationIndex st) = 0 then None else getRandomElement r (stationIndex st))"

text \<open>
  \<^verbatim>\<open>spin\<close> is an async function with one suspension point, the three-second timer.
  \<open>spin_begin\<close> is the part before the \<^verbatim>\<open>await\<close>; it yields \<open>None\<close> when the call
  returns at the guard. \<open>spin_resume\<close> is the continuation the timer runs, on the store
  as it is by then; \<open>r\<close> is the one \<^verbatim>\<open>Math.random()\<close> value the continuation draws.
\<close>

definition spin_begin :: "Store \<Rightarrow> Store option" where
  "spin_begin st = (if isSpinning st then None else Some (st\<lparr>isSpinning := True\<rparr>))"

definition spin_resume :: "real \<Rightarrow> Store \<Rightarrow> Store" where
  "spin_resume r st =
     (let st1 =
        (if mode st = Some Single then
           (case selectRandomStation r st of
              Some station \<Rightarrow> st\<lparr>selectedStation := Some station, selectedLine := None\<rparr>
            | None \<Rightarrow> st)
         else
           (case selectedLine st of
              None \<Rightarrow> st\<lparr>selectedLine := selectRandomLine r st\<rparr>
            | Some line \<Rightarrow>
                (case selectRandomStationFromLine r st line of
                   Some station \<Rightarrow> st\<lparr>selectedStation := Some station\<rparr>
                 | None \<Rightarrow> st)))
      in st1\<lparr>isSpinning := False\<rparr>)"

subsection \<open>The station index built by \<^verbatim>\<open>loadMetroData\<close>\<close>

text \<open>
  \<^verbatim>\<open>stationMap\<close> is a JavaScript \<^verbatim>\<open>Map\<close>: it keeps its keys in the order of their first
  insertion, and \<^verbatim>\<open>set\<close> on a key already there replaces the value in place. That is
  an association list with \<^const>\<open>AList.update\<close>. The value stored is an object, and
  \<^verbatim>\<open>station.lines.push\<close> mutates the object the map holds: the model writes the
  changed object back under its key.
\<close>

type_synonym StationMap = "(string \<times> MetroStation) list"

definition Map_has :: "StationMap \<Rightarrow> string \<Rightarrow> bool" where
  "Map_has m k \<longleftrightarrow> map_of m k \<noteq> None"

definition Map_get :: "StationMap \<Rightarrow> string \<Rightarrow> MetroStation option" where
  "Map_get m k = map_of m k"

definition Map_set :: "string \<Rightarrow> MetroStation \<Rightarrow> StationMap \<Rightarrow> StationMap" where
  "Map_set k v m = AList.update k v m"

definition lineTag :: "MetroLine \<Rightarrow> LineTag" where
  \<comment> \<open>\<^verbatim>\<open>{name: line.name, color: line.color}\<close>\<close>
  "lineTag line = \<lparr>tag_name = line_name line, tag_color = line_color line\<rparr>"

definition index_station :: "MetroLine \<Rightarrow> string \<Rightarrow> StationMap \<Rightarrow> StationMap" where
  \<comment> \<open>the callback of \<^verbatim>\<open>line.stations.forEach\<close>; the empty string is falsy\<close>
  "index_station line stationName m =
     (if stationName = [] then m
      else
        let m1 = (if \<not> Map_has m stationName
                  then Map_set stationName \<lparr>st_name = stationName, st_lines = []\<rparr> m
                  else m)
        in case Map_get m1 stationName of
             Some station \<Rightarrow>
               Map_set stationName (station\<lparr>st_lines := st_lines station @ [lineTag line]\<rparr>) m1
           | None \<Rightarrow> m1)"

definition index_line :: "MetroLine \<Rightarrow> StationMap \<Rightarrow> StationMap" where
  \<comment> \<open>the callback of \<^verbatim>\<open>lines.forEach\<close>; a typed line always has an array of stations\<close>
  "index_line line m = fold (index_station line) (stations line) m"

definition buildStationIndex :: "MetroLine list \<Rightarrow> MetroStation list" where
  \<comment> \<open>\<^verbatim>\<open>Array.from(stationMap.values())\<close>\<close>
  "buildStationIndex lines = map snd (fold index_line lines [])"


section \<open>The offline converter (convert_metro_data.js)\<close>

text \<open>
  A line of the vendor's export, with the fields the converter reads; \<open>src_stations\<close> holds
  the \<^verbatim>\<open>stationName\<close> of each station object. \<^verbatim>\<open>String.prototype.trim\<close> is a parameter.
  The identifier, name and colour of the converted line are string formatting of the
  source line's own fields (lines 39 to 47 and 61 to 87 of the script) that never reads
  the stations; the model takes that formatting as the parameter \<open>header\<close>.
\<close>

record SourceLine =
  lineShowCode :: string
  lineName :: string
  lineNameEn :: string
  lineColor :: string
  src_stations :: "string list"

definition add_stationName ::
    "(string \<Rightarrow> string) \<Rightarrow> string \<Rightarrow> string list \<times> string set \<Rightarrow> string list \<times> string set" where
  \<comment> \<open>the callback of \<^verbatim>\<open>line.stations.forEach\<close>, on \<^verbatim>\<open>(stationNames, seenStations)\<close>\<close>
  "add_stationName trim stationName acc =
     (let name = trim stationName
      in if name \<noteq> [] \<and> name \<notin> snd acc then (fst acc @ [name], insert name (snd acc))
         else acc)"

definition stationNames :: "(string \<Rightarrow> string) \<Rightarrow> string list \<Rightarrow> string list" where
  "stationNames trim raw = fst (fold (add_stationName trim) raw ([], {}))"

definition convert_line ::
    "(string \<Rightarrow> string) \<Rightarrow> (SourceLine \<Rightarrow> string \<times> string \<times> string) \<Rightarrow> SourceLine
       \<Rightarrow> MetroLine option" where
  "convert_line trim header line =
     (if src_stations line = [] then None
      else Some \<lparr>line_id = fst (header line), line_name = fst (snd (header line)),
                 line_color = snd (snd (header line)),
                 stations = stationNames trim (src_stations line)\<rparr>)"

definition convert ::
    "(string \<Rightarrow> string) \<Rightarrow> (SourceLine \<Rightarrow> string \<times> string \<times> string) \<Rightarrow> SourceLine list
       \<Rightarrow> MetroLine list" where
  \<comment> \<open>\<^verbatim>\<open>sourceData.businessObject.map(...).filter(Boolean)\<close>\<close>
  "convert trim header src = List.map_filter (convert_line trim header) src"

section \<open>The wheel (src/components/MetroRoulette.vue)\<close>

text \<open>
  \<open>Anim\<close> is the closure \<^verbatim>\<open>animate\<close> of one call of \<^verbatim>\<open>spinWheel\<close>: the constants
  it captures. \<open>Wheel\<close> is the component: the prop \<^verbatim>\<open>items\<close>, its refs, the store it
  writes to, the callbacks handed to \<^verbatim>\<open>requestAnimationFrame\<close> and not yet run, and
  the trace of the effects an observer can see, oldest first.
\<close>

record Anim =
  totalItems :: real
  sliceAngle :: real
  targetItem :: "MetroStation option"
  startTime :: real
  startRotation :: real
  endRotation :: real
  angleDiff :: real
  duration :: real

datatype event =
    SetRotation real
  | SetAnimating bool
  | SelectStation MetroStation
  | SpinComplete MetroStation

record Wheel =
  items :: "MetroStation list"
  rotation :: real
  currentRotation :: real
  isAnimating :: bool
  metroStore :: Store
  pending :: "Anim list"
  trace :: "event list"

definition normalizedRotation :: "real \<Rightarrow> real" where
  \<comment> \<open>\<^verbatim>\<open>((x % 360) + 360) % 360\<close>\<close>
  "normalizedRotation x = js_rem (js_rem x 360 + 360) 360"

definition store_selectStation :: "MetroStation \<Rightarrow> Wheel \<Rightarrow> Wheel" where
  \<comment> \<open>\<^verbatim>\<open>metroStore.selectStation(newItem)\<close>\<close>
  "store_selectStation item w =
     w\<lparr>metroStore := selectStation item (metroStore w), trace := trace w @ [SelectStation item]\<rparr>"

definition updateCurrentItem :: "Wheel \<Rightarrow> Wheel" where
  "updateCurrentItem w =
     (if length (items w) = 0 then w
      else let perAngle = 360 / js_length (items w);
               index = js_floor (normalizedRotation (currentRotation w) / perAngle);
               newItem = js_index (items w) (js_rem (js_length (items w) - index) (js_length (items w)))
           in case newItem of
                None \<Rightarrow> w
              | Some item \<Rightarrow>
                  (case selectedStation (metroStore w) of
                     None \<Rightarrow> store_selectStation item w
                   | Some cur \<Rightarrow>
                       if st_name item \<noteq> st_name cur then store_selectStation item w else w))"

definition targetIndex :: "MetroStation list \<Rightarrow> real \<Rightarrow> real" where
  \<comment> \<open>\<^verbatim>\<open>Math.floor(Math.random() * totalItems)\<close>, \<open>r1\<close> the value drawn\<close>
  "targetIndex its r1 = js_floor (r1 * js_length its)"

definition fullRotations :: "real \<Rightarrow> real" where
  \<comment> \<open>\<^verbatim>\<open>minRotations + Math.random() * (maxRotations - minRotations)\<close>, \<open>r2\<close> the value drawn\<close>
  "fullRotations r2 = 3 + r2 * (5 - 3)"

definition baseTargetAngle :: "MetroStation list \<Rightarrow> real \<Rightarrow> real" where
  \<comment> \<open>\<^verbatim>\<open>targetAngle\<close> as first assigned: \<^verbatim>\<open>360 - (targetIndex * sliceAngle)\<close>\<close>
  "baseTargetAngle its r1 = 360 - targetIndex its r1 * (360 / js_length its)"

definition targetAngle :: "MetroStation list \<Rightarrow> real \<Rightarrow> real \<Rightarrow> real" where
  \<comment> \<open>\<^verbatim>\<open>targetAngle\<close> after \<^verbatim>\<open>targetAngle += 360 * fullRotations\<close>\<close>
  "targetAngle its r1 r2 = baseTargetAngle its r1 + 360 * fullRotations r2"

definition raw_angleDiff :: "MetroStation list \<Rightarrow> real \<Rightarrow> real \<Rightarrow> real \<Rightarrow> real" where
  \<comment> \<open>\<^verbatim>\<open>angleDiff\<close> as first assigned, before the test \<^verbatim>\<open>angleDiff < 0\<close>\<close>
  "raw_angleDiff its rot r1 r2 = targetAngle its r1 r2 - normalizedRotation rot"

definition spin_closure :: "MetroStation list \<Rightarrow> real \<Rightarrow> real \<Rightarrow> real \<Rightarrow> real \<Rightarrow> Anim" where
  \<comment> \<open>The constants of \<^verbatim>\<open>spinWheel\<close> that \<^verbatim>\<open>animate\<close> captures, computed in the
      order of the source; \<open>rot\<close> is \<^verbatim>\<open>rotation.value\<close>, \<open>now\<close> is \<^verbatim>\<open>performance.now()\<close>.\<close>
  "spin_closure its rot r1 r2 now =
     (let total = js_length its;
          slice = 360 / total;
          tItem = js_index its (targetIndex its r1);
          diff0 = raw_angleDiff its rot r1 r2;
          diff = (if diff0 < 0 then diff0 + 360 else diff0);
          startRot = rot;
          endRot = startRot + diff;
          baseDuration = 1000;
          rotationFactor = diff / 360;
          dur = baseDuration * (1 + rotationFactor * 0.5)
      in \<lparr>totalItems = total, sliceAngle = slice, targetItem = tItem, startTime = now,
          startRotation = startRot, endRotation = endRot, angleDiff = diff, duration = dur\<rparr>)"

definition spinWheel :: "real \<Rightarrow> real \<Rightarrow> real \<Rightarrow> Wheel \<Rightarrow> Wheel" where
  "spinWheel r1 r2 now w =
     (if length (items w) = 0 \<or> isAnimating w then w
      else w\<lparr>isAnimating := True,
             trace := trace w @ [SetAnimating True],
             pending := pending w @ [spin_closure (items w) (rotation w) r1 r2 now]\<rparr>)"

definition easedProgress :: "real \<Rightarrow> real" where
  "easedProgress progress =
     (if progress < 0.5 then 3 * progress * progress * progress
      else 1 - (- 2 * progress + 2) ^ 4 / 2)"

definition progress_at :: "Anim \<Rightarrow> real \<Rightarrow> real" where
  \<comment> \<open>\<^verbatim>\<open>progress\<close> of the frame with the given timestamp\<close>
  "progress_at a timestamp = min ((timestamp - startTime a) / duration a) 1"

definition currentRotationValue :: "Anim \<Rightarrow> real \<Rightarrow> real" where
  \<comment> \<open>\<^verbatim>\<open>currentRotationValue\<close> of the frame with the given timestamp\<close>
  "currentRotationValue a timestamp =
     startRotation a + angleDiff a * easedProgress (progress_at a timestamp)"

definition currentIndex :: "Anim \<Rightarrow> real \<Rightarrow> real" where
  \<comment> \<open>\<^verbatim>\<open>currentIndex\<close> of a frame whose rotation value is \<open>v\<close>\<close>
  "currentIndex a v = js_rem (js_floor (normalizedRotation v / sliceAngle a)) (totalItems a)"

definition newItem_index :: "Anim \<Rightarrow> real \<Rightarrow> real" where
  \<comment> \<open>the index \<^verbatim>\<open>(totalItems - currentIndex) % totalItems\<close> read from \<^verbatim>\<open>props.items\<close>\<close>
  "newItem_index a v = js_rem (totalItems a - currentIndex a v) (totalItems a)"

definition animate :: "Anim \<Rightarrow> real \<Rightarrow> Wheel \<Rightarrow> Wheel" where
  "animate a timestamp w =
     (if \<not> isAnimating w then w
      else
        let progress = progress_at a timestamp;
            v = currentRotationValue a timestamp;
            w1 = w\<lparr>rotation := v, currentRotation := v, trace := trace w @ [SetRotation v]\<rparr>;
            w2 = (case js_index (items w1) (newItem_index a v) of
                    Some newItem \<Rightarrow> store_selectStation newItem w1
                  | None \<Rightarrow> w1)
        in if progress < 1 then w2\<lparr>pending := pending w2 @ [a]\<rparr>
           else
             let w3 = w2\<lparr>rotation := endRotation a, currentRotation := endRotation a,
                        isAnimating := False,
                        trace := trace w2 @ [SetRotation (endRotation a), SetAnimating False]\<rparr>
             in case targetItem a of
                  Some item \<Rightarrow> w3\<lparr>trace := trace w3 @ [SpinComplete item]\<rparr>
                | None \<Rightarrow> w3)"

text \<open>
  One display frame: the browser runs the callbacks requested since the last frame, in
  order, with the frame's timestamp; callbacks requested meanwhile wait for the next
  frame. Then the watcher on \<^verbatim>\<open>currentRotation\<close> runs if the ref has changed.
\<close>

definition frame :: "real \<Rightarrow> Wheel \<Rightarrow> Wheel" where
  "frame timestamp w =
     (let w' = fold (\<lambda>a. animate a timestamp) (pending w) (w\<lparr>pending := []\<rparr>)
      in if currentRotation w' \<noteq> currentRotation w then updateCurrentItem w' else w')"

fun run_frames :: "real list \<Rightarrow> Wheel \<Rightarrow> Wheel" where
  "run_frames [] w = w"
| "run_frames (t # ts) w = run_frames ts (frame t w)"

text \<open>The rotation after each frame that had a callback to run.\<close>

fun frame_rotations :: "real list \<Rightarrow> Wheel \<Rightarrow> real list" where
  "frame_rotations [] w = []"
| "frame_rotations (t # ts) w =
     (if pending w = [] then frame_rotations ts w
      else rotation (frame t w) # frame_rotations ts (frame t w))"

text \<open>
  The host replaces the prop \<^verbatim>\<open>items\<close> (in \<^verbatim>\<open>App.vue\<close> the computed \<^verbatim>\<open>rouletteItems\<close>
  yields a new array whenever the mode or the selected line changes, also while a spin
  is in flight). The watcher on \<^verbatim>\<open>props.items\<close> then runs \<^verbatim>\<open>updateCurrentItem\<close>. A
  closure \<^verbatim>\<open>animate\<close> made before keeps the \<^verbatim>\<open>totalItems\<close> and \<^verbatim>\<open>sliceAngle\<close> it
  captured and reads the new list.
\<close>

definition set_items :: "MetroStation list \<Rightarrow> Wheel \<Rightarrow> Wheel" where
  "set_items its w = updateCurrentItem (w\<lparr>items := its\<rparr>)"

text \<open>
  An idle wheel has no animation running and no callback waiting. A wheel is in flight
  with closure \<open>a\<close> when \<open>a\<close> is the one callback waiting, the animation flag is set
  and \<open>a\<close> was made by \<^verbatim>\<open>spinWheel\<close> for the items the wheel shows.
\<close>

definition idle :: "Wheel \<Rightarrow> bool" where
  "idle w \<longleftrightarrow> \<not> isAnimating w \<and> pending w = []"

definition in_flight :: "Anim \<Rightarrow> Wheel \<Rightarrow> bool" where
  "in_flight a w \<longleftrightarrow>
     isAnimating w \<and> pending w = [a] \<and> items w \<noteq> [] \<and>
     totalItems a = js_length (items w) \<and> sliceAngle a = 360 / js_length (items w) \<and>
     endRotation a = startRotation a + angleDiff a"

definition highlighted :: "Anim \<Rightarrow> MetroStation list \<Rightarrow> real \<Rightarrow> MetroStation" where
  \<comment> \<open>\<^verbatim>\<open>newItem\<close> of a frame whose rotation value is \<open>v\<close>, when the read is inside the array\<close>
  "highlighted a its v = its ! nat \<lfloor>newItem_index a v\<rfloor>"

text \<open>
  What happens to a mounted wheel whose list of items stays as it is: the host triggers
  \<^verbatim>\<open>spinWheel\<close> (with the values the call will draw and read), or a display frame comes.
\<close>

datatype wheel_op = Spin real real real | Frame real

fun step :: "wheel_op \<Rightarrow> Wheel \<Rightarrow> Wheel" where
  "step (Spin r1 r2 now) w = spinWheel r1 r2 now w"
| "step (Frame t) w = frame t w"

definition run_ops :: "wheel_op list \<Rightarrow> Wheel \<Rightarrow> Wheel" where
  "run_ops ops w = fold step ops w"

text \<open>The completion events of a trace, oldest first.\<close>

fun completions :: "event list \<Rightarrow> MetroStation list" where
  "completions [] = []"
| "completions (SpinComplete item # es) = item # completions es"
| "completions (e # es) = completions es"

section \<open>Notions of the specification\<close>

text \<open>
  The minimal non-negative forward angle from the angle \<open>cur\<close> to the angle \<open>target\<close>:
  the representative of \<open>target - cur\<close> modulo 360 that lies in \<open>[0, 360)\<close>.
\<close>

definition forward_angle :: "real \<Rightarrow> real \<Rightarrow> real" where
  "forward_angle cur target = (target - cur) - 360 * of_int \<lfloor>(target - cur) / 360\<rfloor>"

text \<open>A list without its repetitions, each element at the place of its first appearance.\<close>

definition insert_new :: "'a \<Rightarrow> 'a list \<Rightarrow> 'a list" where
  "insert_new x acc = (if x \<in> set acc then acc else acc @ [x])"

definition first_occurrences :: "'a list \<Rightarrow> 'a list" where
  "first_occurrences xs = fold insert_new xs []"

text \<open>
  The easing curve in the words of the specification: \<open>3 p\<^sup>3\<close> below one half,
  \<open>1 - (-2 p + 2)\<^sup>4 / 2\<close> from one half on.
\<close>

definition eased_spec :: "real \<Rightarrow> real" where
  "eased_spec p = (if p < 1 / 2 then 3 * p ^ 3 else 1 - ((- 2 * p + 2) ^ 4) / 2)"

text \<open>
  The sector under the pointer. The pointer is fixed at the top, the wheel is drawn with
  sector \<open>i\<close> on \<open>[i w, (i + 1) w)\<close> clockwise from the top (\<^verbatim>\<open>wheelBackground\<close>) and
  turned clockwise by \<open>r\<close>; so the wheel angle under the pointer is \<open>(360 - r) mod 360\<close>,
  and the sector there is the \<open>i\<close> with \<open>i w \<le> (360 - r) mod 360 < (i + 1) w\<close>.
\<close>

definition pointer_angle :: "real \<Rightarrow> real" where
  "pointer_angle r = (360 - r) - 360 * of_int \<lfloor>(360 - r) / 360\<rfloor>"

definition sector_under_pointer :: "MetroStation list \<Rightarrow> real \<Rightarrow> int" where
  "sector_under_pointer its r = \<lfloor>pointer_angle r / (360 / js_length its)\<rfloor>"

section \<open>Auxiliary notions for the station index\<close>

text \<open>
  The station map with keys \<open>ks\<close>, where the station \<open>k\<close> carries the tags \<open>f k\<close>; and the
  visits the two nested loops of \<^verbatim>\<open>loadMetroData\<close> make, as pairs of a line and a
  station name, in the order of the visits.
\<close>

definition station_map :: "string list \<Rightarrow> (string \<Rightarrow> LineTag list) \<Rightarrow> StationMap" where
  "station_map ks f = map (\<lambda>k. (k, \<lparr>st_name = k, st_lines = f k\<rparr>)) ks"

definition visits :: "MetroLine list \<Rightarrow> (MetroLine \<times> string) list" where
  "visits lines = concat (map (\<lambda>l. map (Pair l) (stations l)) lines)"

definition visit_tags :: "(MetroLine \<times> string) list \<Rightarrow> string \<Rightarrow> LineTag list" where
  "visit_tags ps k = map (lineTag \<circ> fst) (filter (\<lambda>p. snd p = k) ps)"

section \<open>Example data\<close>

text \<open>
  The wheel of the specification's concrete example: four items \<open>A\<close>, \<open>B\<close>, \<open>C\<close>, \<open>D\<close>,
  so four sectors of 90 degrees, at rest at a given rotation, with a fresh store.
\<close>

definition example_items :: "MetroStation list" where
  "example_items =
     [\<lparr>st_name = ''A'', st_lines = []\<rparr>, \<lparr>st_name = ''B'', st_lines = []\<rparr>,
      \<lparr>st_name = ''C'', st_lines = []\<rparr>, \<lparr>st_name = ''D'', st_lines = []\<rparr>]"

definition fresh_store :: Store where
  "fresh_store =
     \<lparr>mode = None, selectedLine = None, selectedStation = None, isSpinning = False,
      isInitialized = False, metroData = [], stationIndex = []\<rparr>"

definition example_wheel :: "real \<Rightarrow> Wheel" where
  "example_wheel rot =
     \<lparr>items = example_items, rotation = rot, currentRotation = rot, isAnimating = False,
      metroStore = fresh_store, pending = [], trace = []\<rparr>"

text \<open>A shorter list, as the host hands over when a line with two stations is selected.\<close>

definition example_two_items :: "MetroStation list" where
  "example_two_items =
     [\<lparr>st_name = ''X'', st_lines = []\<rparr>, \<lparr>st_name = ''Y'', st_lines = []\<rparr>]"

text \<open>A dataset of two lines that share a station, and a store in double mode over it.\<close>

definition example_lines :: "MetroLine list" where
  "example_lines =
     [\<lparr>line_id = ''1'', line_name = ''Line 1'', line_color = ''#F3D03E'', stations = [''X'', ''Y'']\<rparr>,
      \<lparr>line_id = ''2'', line_name = ''Line 2'', line_color = ''#00629B'', stations = [''Y'', ''Z'']\<rparr>]"

definition example_store :: Store where
  "example_store =
     \<lparr>mode = Some Double, selectedLine = None,
      selectedStation = Some \<lparr>st_name = ''A'', st_lines = []\<rparr>, isSpinning = True,
      isInitialized = True, metroData = example_lines, stationIndex = []\<rparr>"

section \<open>Arithmetic of angles and indices\<close>

lemma js_rem_nonneg:
  assumes "0 \<le> a" "0 < b"
  shows "js_rem a b = a - b * of_int \<lfloor>a / b\<rfloor>"
  using assms by (simp add: js_rem_def)

lemma js_rem_360_bounds: "- 360 < js_rem x 360 \<and> js_rem x 360 < 360"
proof -
  define q where "q = x / 360"
  define fl :: real where "fl = of_int \<lfloor>q\<rfloor>"
  define cl :: real where "cl = of_int \<lceil>q\<rceil>"
  have f: "fl \<le> q" "q < fl + 1" unfolding fl_def by linarith+
  have c: "q \<le> cl" "cl < q + 1" unfolding cl_def by linarith+
  have r: "js_rem x 360 = 360 * (q - (if 0 \<le> q then fl else cl))"
    unfolding js_rem_def q_def fl_def cl_def by (simp add: algebra_simps)
  show ?thesis
  proof (cases "0 \<le> q")
    case True
    then have "js_rem x 360 = 360 * (q - fl)" by (simp add: r)
    with True f show ?thesis by simp
  next
    case False
    then have "js_rem x 360 = 360 * (q - cl)" by (simp add: r)
    with False c show ?thesis by simp
  qed
qed

lemma normalizedRotation_eq: "normalizedRotation x = x - 360 * of_int \<lfloor>x / 360\<rfloor>"
proof -
  define t :: int where "t = (if 0 \<le> x / 360 then \<lfloor>x / 360\<rfloor> else \<lceil>x / 360\<rceil>)"
  have r: "js_rem x 360 = x - 360 * of_int t"
    by (simp add: js_rem_def t_def)
  have pos: "0 \<le> js_rem x 360 + 360"
    using js_rem_360_bounds[of x] by simp
  have "normalizedRotation x = (js_rem x 360 + 360) - 360 * of_int \<lfloor>(js_rem x 360 + 360) / 360\<rfloor>"
    unfolding normalizedRotation_def using pos by (simp add: js_rem_nonneg)
  also have "(js_rem x 360 + 360) / 360 = x / 360 + of_int (1 - t)"
    by (simp add: r)
  also have "\<lfloor>x / 360 + of_int (1 - t)\<rfloor> = \<lfloor>x / 360\<rfloor> + (1 - t)"
    by (simp only: floor_add_int)
  finally show ?thesis by (simp add: r)
qed

lemma normalizedRotation_bounds: "0 \<le> normalizedRotation x \<and> normalizedRotation x < 360"
proof -
  define q where "q = x / 360"
  define fl :: real where "fl = of_int \<lfloor>q\<rfloor>"
  have f: "fl \<le> q" "q < fl + 1" unfolding fl_def by linarith+
  have n: "normalizedRotation x = 360 * (q - fl)"
    unfolding normalizedRotation_eq q_def fl_def by (simp add: algebra_simps)
  show ?thesis unfolding n using f by simp
qed

lemma normalizedRotation_shift: "normalizedRotation (x + 360 * of_int k) = normalizedRotation x"
proof -
  have "(x + 360 * of_int k) / 360 = x / 360 + of_int k" by simp
  then have "\<lfloor>(x + 360 * of_int k) / 360\<rfloor> = \<lfloor>x / 360\<rfloor> + k"
    by (simp only: floor_add_int)
  then show ?thesis by (simp add: normalizedRotation_eq algebra_simps)
qed

lemma normalizedRotation_id: "0 \<le> x \<Longrightarrow> x < 360 \<Longrightarrow> normalizedRotation x = x"
proof -
  assume a: "0 \<le> x" "x < 360"
  then have "\<lfloor>x / 360\<rfloor> = 0" by (simp add: floor_eq_iff)
  then show ?thesis by (simp add: normalizedRotation_eq)
qed

lemma js_index_of_int:
  "0 \<le> k \<Longrightarrow> nat k < length xs \<Longrightarrow> js_index xs (of_int k) = Some (xs ! nat k)"
  by (simp add: js_index_def)

lemma floor_scaled_range:
  fixes r :: real
  assumes "0 < n" "0 \<le> r" "r < 1"
  shows "0 \<le> \<lfloor>r * real n\<rfloor> \<and> \<lfloor>r * real n\<rfloor> < int n"
proof -
  have "0 \<le> r * real n" using assms by simp
  moreover have "r * real n < real n" using assms by simp
  ultimately show ?thesis by (simp add: floor_less_iff)
qed

lemma sector_floor_range:
  assumes "0 < n"
  shows "0 \<le> \<lfloor>normalizedRotation v / (360 / real n)\<rfloor> \<and>
         \<lfloor>normalizedRotation v / (360 / real n)\<rfloor> < int n"
proof -
  define x where "x = normalizedRotation v"
  have b: "0 \<le> x" "x < 360" using normalizedRotation_bounds[of v] by (simp_all add: x_def)
  have e: "x / (360 / real n) = (x / 360) * real n" by simp
  have "0 \<le> x / 360" "x / 360 < 1" using b by simp_all
  then show ?thesis unfolding x_def[symmetric] e using assms by (rule_tac floor_scaled_range)
qed

lemma js_rem_small:
  assumes "0 \<le> a" "a < b"
  shows "js_rem a b = a"
proof -
  have "0 \<le> a / b" "a / b < 1" using assms by simp_all
  then have "\<lfloor>a / b\<rfloor> = 0" by (simp add: floor_eq_iff)
  then show ?thesis using assms by (simp add: js_rem_def)
qed

lemma js_rem_self: "0 < b \<Longrightarrow> js_rem b b = 0"
  by (simp add: js_rem_def)

lemma spin_closure_simps:
  "totalItems (spin_closure its rot r1 r2 now) = js_length its"
  "sliceAngle (spin_closure its rot r1 r2 now) = 360 / js_length its"
  "targetItem (spin_closure its rot r1 r2 now) = js_index its (targetIndex its r1)"
  "startTime (spin_closure its rot r1 r2 now) = now"
  "startRotation (spin_closure its rot r1 r2 now) = rot"
  "endRotation (spin_closure its rot r1 r2 now) =
     startRotation (spin_closure its rot r1 r2 now) + angleDiff (spin_closure its rot r1 r2 now)"
  "angleDiff (spin_closure its rot r1 r2 now) =
     (if raw_angleDiff its rot r1 r2 < 0 then raw_angleDiff its rot r1 r2 + 360
      else raw_angleDiff its rot r1 r2)"
  "duration (spin_closure its rot r1 r2 now) =
     1000 * (1 + angleDiff (spin_closure its rot r1 r2 now) / 360 * 0.5)"
  by (simp_all add: spin_closure_def Let_def)

lemma base_target_range:
  assumes "its \<noteq> []" "0 \<le> r1" "r1 < 1"
  shows "0 < baseTargetAngle its r1"
    and "baseTargetAngle its r1 \<le> 360"
proof -
  define n where "n = length its"
  have n: "0 < n" using assms(1) by (simp add: n_def)
  define k where "k = \<lfloor>r1 * real n\<rfloor>"
  have k: "0 \<le> k" "k < int n"
    using floor_scaled_range[OF n assms(2,3)] by (simp_all add: k_def)
  have ti: "targetIndex its r1 = of_int k"
    by (simp add: targetIndex_def js_floor_def js_length_def k_def n_def)
  have "real_of_int k < real n" using k by linarith
  then have "real_of_int k * 360 < 360 * real n" by simp
  then have lt: "real_of_int k * (360 / real n) < 360"
    using n by (simp add: pos_divide_less_eq)
  have ge: "0 \<le> real_of_int k * (360 / real n)" using k by simp
  show "0 < baseTargetAngle its r1"
    using lt by (simp add: baseTargetAngle_def ti js_length_def n_def)
  show "baseTargetAngle its r1 \<le> 360"
    using ge by (simp add: baseTargetAngle_def ti js_length_def n_def)
qed

lemma raw_angleDiff_lower:
  assumes "its \<noteq> []" "0 \<le> r1" "r1 < 1" "0 \<le> r2"
  shows "720 < raw_angleDiff its rot r1 r2"
proof -
  have a: "0 < baseTargetAngle its r1"
    using base_target_range(1)[OF assms(1-3)] .
  have b: "normalizedRotation rot < 360" using normalizedRotation_bounds[of rot] by simp
  have c: "1080 \<le> 360 * fullRotations r2" using assms(4) by (simp add: fullRotations_def)
  show ?thesis unfolding raw_angleDiff_def targetAngle_def using a b c by linarith
qed

lemma frame_index_eq:
  fixes v :: real
  assumes n: "0 < n" and t: "totalItems a = real n" and s: "sliceAngle a = 360 / real n"
  defines "k \<equiv> \<lfloor>normalizedRotation v / (360 / real n)\<rfloor>"
  shows "currentIndex a v = of_int k"
    and "newItem_index a v = of_int (if k = 0 then 0 else int n - k)"
proof -
  have k: "0 \<le> k" "k < int n" using sector_floor_range[OF n, of v] by (simp_all add: k_def)
  have kr: "0 \<le> real_of_int k" "real_of_int k < real n" using k by linarith+
  show ci: "currentIndex a v = of_int k"
    using js_rem_small[OF kr] by (simp add: currentIndex_def js_floor_def t s k_def)
  show "newItem_index a v = of_int (if k = 0 then 0 else int n - k)"
  proof (cases "k = 0")
    case True
    then show ?thesis using n by (simp add: newItem_index_def ci t js_rem_self)
  next
    case False
    with k have "0 \<le> real n - real_of_int k" "real n - real_of_int k < real n" by linarith+
    from js_rem_small[OF this] False show ?thesis
      by (simp add: newItem_index_def ci t)
  qed
qed

lemma frame_index_range:
  assumes n: "0 < n" and t: "totalItems a = real n" and s: "sliceAngle a = 360 / real n"
  shows "\<exists>j. newItem_index a v = of_int j \<and> 0 \<le> j \<and> j < int n"
proof -
  define k where "k = \<lfloor>normalizedRotation v / (360 / real n)\<rfloor>"
  have k: "0 \<le> k" "k < int n" using sector_floor_range[OF n, of v] by (simp_all add: k_def)
  have "newItem_index a v = of_int (if k = 0 then 0 else int n - k)"
    using frame_index_eq(2)[OF n t s, of v] by (simp add: k_def)
  moreover have "0 \<le> (if k = 0 then 0 else int n - k)" "(if k = 0 then 0 else int n - k) < int n"
    using k n by auto
  ultimately show ?thesis by blast
qed

lemma frame_item_defined:
  assumes n: "its \<noteq> []" and t: "totalItems a = js_length its" and s: "sliceAngle a = 360 / js_length its"
  shows "\<exists>j < length its. newItem_index a v = real j \<and> js_index its (newItem_index a v) = Some (its ! j)"
proof -
  have n': "0 < length its" using n by simp
  obtain j where j: "newItem_index a v = of_int j" "0 \<le> j" "j < int (length its)"
    using frame_index_range[OF n', of a v] t s by (auto simp: js_length_def)
  then have "nat j < length its" by linarith
  moreover have "newItem_index a v = real (nat j)" using j by simp
  moreover have "js_index its (newItem_index a v) = Some (its ! nat j)"
    using j js_index_of_int[of j its] \<open>nat j < length its\<close> by simp
  ultimately show ?thesis by blast
qed

lemma target_item_defined:
  assumes "its \<noteq> []" "0 \<le> r1" "r1 < 1"
  shows "nat \<lfloor>r1 * js_length its\<rfloor> < length its"
    and "targetIndex its r1 = real (nat \<lfloor>r1 * js_length its\<rfloor>)"
    and "js_index its (targetIndex its r1) = Some (its ! nat \<lfloor>r1 * js_length its\<rfloor>)"
proof -
  have n: "0 < length its" using assms(1) by simp
  define k where "k = \<lfloor>r1 * real (length its)\<rfloor>"
  have k: "0 \<le> k" "k < int (length its)"
    using floor_scaled_range[OF n assms(2,3)] by (simp_all add: k_def)
  have e: "\<lfloor>r1 * js_length its\<rfloor> = k" by (simp add: k_def js_length_def)
  have nk: "nat k < length its" using k by linarith
  have rk: "real_of_int k = real (nat k)" using k by simp
  show "nat \<lfloor>r1 * js_length its\<rfloor> < length its"
    unfolding e by (rule nk)
  show "targetIndex its r1 = real (nat \<lfloor>r1 * js_length its\<rfloor>)"
    unfolding e targetIndex_def js_floor_def by (rule rk)
  show "js_index its (targetIndex its r1) = Some (its ! nat \<lfloor>r1 * js_length its\<rfloor>)"
    unfolding e targetIndex_def js_floor_def by (rule js_index_of_int[OF k(1) nk])
qed

lemma easedProgress_one: "easedProgress 1 = 1"
  by (simp add: easedProgress_def)

lemma progress_at_le_one: "progress_at a t \<le> 1"
  by (simp add: progress_at_def)

lemma currentRotationValue_final:
  assumes "\<not> progress_at a t < 1" and "endRotation a = startRotation a + angleDiff a"
  shows "currentRotationValue a t = endRotation a"
proof -
  have "progress_at a t = 1" using assms(1) progress_at_le_one[of a t] by linarith
  then show ?thesis by (simp add: currentRotationValue_def easedProgress_one assms(2))
qed

lemma updateCurrentItem_index:
  assumes "its \<noteq> []" and "totalItems a = js_length its" and "sliceAngle a = 360 / js_length its"
  shows "js_rem (js_length its - js_floor (normalizedRotation v / (360 / js_length its))) (js_length its)
         = newItem_index a v"
proof -
  have n: "0 < length its" using assms(1) by simp
  have "currentIndex a v = js_floor (normalizedRotation v / (360 / js_length its))"
    using frame_index_eq(1)[OF n, of a v] assms(2,3) by (simp add: js_length_def js_floor_def)
  then show ?thesis by (simp add: newItem_index_def assms(2))
qed

lemma updateCurrentItem_same:
  assumes "items w \<noteq> []" and "totalItems a = js_length (items w)"
    and "sliceAngle a = 360 / js_length (items w)"
    and "selectedStation (metroStore w) = js_index (items w) (newItem_index a (currentRotation w))"
  shows "updateCurrentItem w = w"
proof -
  obtain j where "js_index (items w) (newItem_index a (currentRotation w)) = Some (items w ! j)"
    using frame_item_defined[OF assms(1-3)] by blast
  then show ?thesis
    using assms(1,4) updateCurrentItem_index[OF assms(1-3), of "currentRotation w"]
    by (simp add: updateCurrentItem_def Let_def)
qed

section \<open>Frames of a spin in flight\<close>

lemma highlighted_index:
  assumes "its \<noteq> []" and "totalItems a = js_length its" and "sliceAngle a = 360 / js_length its"
  shows "js_index its (newItem_index a v) = Some (highlighted a its v)"
proof -
  obtain j where "j < length its" "newItem_index a v = real j"
      "js_index its (newItem_index a v) = Some (its ! j)"
    using frame_item_defined[OF assms] by blast
  then show ?thesis by (simp add: highlighted_def)
qed

lemma spinWheel_in_flight:
  assumes "idle w" and "items w \<noteq> []"
  shows "in_flight (spin_closure (items w) (rotation w) r1 r2 now) (spinWheel r1 r2 now w)"
    and "spinWheel r1 r2 now w =
           w\<lparr>isAnimating := True, trace := trace w @ [SetAnimating True],
             pending := [spin_closure (items w) (rotation w) r1 r2 now]\<rparr>"
  using assms by (simp_all add: idle_def in_flight_def spinWheel_def spin_closure_simps)

lemma frame_continue:
  assumes "in_flight a w" and "progress_at a t < 1"
  shows "frame t w =
           w\<lparr>rotation := currentRotationValue a t, currentRotation := currentRotationValue a t,
             metroStore := selectStation (highlighted a (items w) (currentRotationValue a t)) (metroStore w),
             trace := trace w @ [SetRotation (currentRotationValue a t),
                                 SelectStation (highlighted a (items w) (currentRotationValue a t))]\<rparr>"
proof -
  let ?v = "currentRotationValue a t"
  let ?it = "highlighted a (items w) ?v"
  let ?w' = "w\<lparr>rotation := ?v, currentRotation := ?v,
             metroStore := selectStation ?it (metroStore w),
             trace := trace w @ [SetRotation ?v, SelectStation ?it]\<rparr>"
  from assms(1) have f: "isAnimating w" "pending w = [a]" "items w \<noteq> []"
      "totalItems a = js_length (items w)" "sliceAngle a = 360 / js_length (items w)"
    by (simp_all add: in_flight_def)
  have hi: "js_index (items w) (newItem_index a ?v) = Some ?it"
    by (rule highlighted_index[OF f(3-5)])
  have an: "fold (\<lambda>a. animate a t) (pending w) (w\<lparr>pending := []\<rparr>) = ?w'"
    using f(1,2) hi assms(2) by (simp add: animate_def Let_def store_selectStation_def)
  have up: "updateCurrentItem ?w' = ?w'"
    by (rule updateCurrentItem_same[where a = a]) (simp_all add: f hi selectStation_def)
  show ?thesis unfolding frame_def an Let_def using up by simp
qed

lemma frame_complete:
  assumes "in_flight a w" and "\<not> progress_at a t < 1"
  shows "frame t w =
           w\<lparr>rotation := endRotation a, currentRotation := endRotation a, isAnimating := False,
             metroStore := selectStation (highlighted a (items w) (endRotation a)) (metroStore w),
             pending := [],
             trace := trace w @ [SetRotation (endRotation a),
                                 SelectStation (highlighted a (items w) (endRotation a)),
                                 SetRotation (endRotation a), SetAnimating False]
                        @ (case targetItem a of Some item \<Rightarrow> [SpinComplete item] | None \<Rightarrow> [])\<rparr>"
proof -
  let ?v = "endRotation a"
  let ?it = "highlighted a (items w) ?v"
  let ?w' = "w\<lparr>rotation := endRotation a, currentRotation := endRotation a, isAnimating := False,
             metroStore := selectStation ?it (metroStore w),
             pending := [],
             trace := trace w @ [SetRotation ?v, SelectStation ?it, SetRotation ?v, SetAnimating False]
                        @ (case targetItem a of Some item \<Rightarrow> [SpinComplete item] | None \<Rightarrow> [])\<rparr>"
  from assms(1) have f: "isAnimating w" "pending w = [a]" "items w \<noteq> []"
      "totalItems a = js_length (items w)" "sliceAngle a = 360 / js_length (items w)"
      "endRotation a = startRotation a + angleDiff a"
    by (simp_all add: in_flight_def)
  have v: "currentRotationValue a t = ?v"
    by (rule currentRotationValue_final[OF assms(2) f(6)])
  have hi: "js_index (items w) (newItem_index a ?v) = Some ?it"
    by (rule highlighted_index[OF f(3-5)])
  have an: "fold (\<lambda>a. animate a t) (pending w) (w\<lparr>pending := []\<rparr>) = ?w'"
    using f(1,2) hi assms(2) v
    by (cases "targetItem a") (simp_all add: animate_def Let_def store_selectStation_def)
  have up: "updateCurrentItem ?w' = ?w'"
    by (rule updateCurrentItem_same[where a = a]) (simp_all add: f(1-5) hi selectStation_def)
  show ?thesis unfolding frame_def an Let_def using up by simp
qed

lemma frame_no_callback: "pending w = [] \<Longrightarrow> frame t w = w"
  by (simp add: frame_def)

lemma run_frames_no_callback: "pending w = [] \<Longrightarrow> run_frames ts w = w"
  by (induction ts) (simp_all add: frame_no_callback)

lemma cube_mono: "(p::real) \<le> q \<Longrightarrow> p * p * p \<le> q * q * q"
proof -
  assume "p \<le> q"
  then have "p ^ 3 \<le> q ^ 3" by (rule power_mono_odd[rotated]) simp
  then show ?thesis by (simp add: power3_eq_cube)
qed

lemma easedProgress_mono:
  assumes "p \<le> q" and "q \<le> 1"
  shows "easedProgress p \<le> easedProgress q"
proof -
  consider (lo) "q < 1/2" | (mid) "p < 1/2" "1/2 \<le> q" | (hi) "1/2 \<le> p"
    by linarith
  then show ?thesis
  proof cases
    case lo
    then have "p < 1/2" using assms(1) by simp
    with lo cube_mono[OF assms(1)] show ?thesis by (simp add: easedProgress_def)
  next
    case mid
    have "p * p * p \<le> (1/2) * (1/2) * (1/2)" using mid(1) by (intro cube_mono) simp
    then have a: "3 * p * p * p \<le> 3 / 8" by simp
    have "0 \<le> - 2 * q + 2" "- 2 * q + 2 \<le> 1" using mid(2) assms(2) by simp_all
    then have "(- 2 * q + 2) ^ 4 \<le> 1 ^ 4" by (intro power_mono) simp_all
    then have b: "1 / 2 \<le> 1 - (- 2 * q + 2) ^ 4 / 2" by simp
    from a b mid show ?thesis by (simp add: easedProgress_def)
  next
    case hi
    then have q: "1/2 \<le> q" using assms(1) by simp
    have "0 \<le> - 2 * q + 2" "- 2 * q + 2 \<le> - 2 * p + 2" using assms by simp_all
    then have "(- 2 * q + 2) ^ 4 \<le> (- 2 * p + 2) ^ 4" by (intro power_mono) simp_all
    with hi q show ?thesis by (simp add: easedProgress_def)
  qed
qed

lemma progress_at_mono:
  assumes "0 < duration a" and "t \<le> t'"
  shows "progress_at a t \<le> progress_at a t'"
proof -
  have "(t - startTime a) / duration a \<le> (t' - startTime a) / duration a"
    using assms by (simp add: divide_right_mono)
  then show ?thesis by (simp add: progress_at_def min_le_iff_disj)
qed

lemma currentRotationValue_mono:
  assumes "0 < duration a" and "0 \<le> angleDiff a" and "t \<le> t'"
  shows "currentRotationValue a t \<le> currentRotationValue a t'"
proof -
  have "easedProgress (progress_at a t) \<le> easedProgress (progress_at a t')"
    using progress_at_mono[OF assms(1,3)] progress_at_le_one by (rule easedProgress_mono)
  then show ?thesis using assms(2) by (simp add: currentRotationValue_def mult_left_mono)
qed

lemma spin_closure_positive:
  assumes "its \<noteq> []" "0 \<le> r1" "r1 < 1" "0 \<le> r2"
  shows "720 < angleDiff (spin_closure its rot r1 r2 now)"
    and "0 < duration (spin_closure its rot r1 r2 now)"
proof -
  show d: "720 < angleDiff (spin_closure its rot r1 r2 now)"
    using raw_angleDiff_lower[OF assms, of rot] by (simp add: spin_closure_simps)
  show "0 < duration (spin_closure its rot r1 r2 now)"
    using d by (simp add: spin_closure_simps(8))
qed

lemma in_flight_frame:
  assumes "in_flight a w" and "progress_at a t < 1"
  shows "in_flight a (frame t w)"
  using assms(1) unfolding frame_continue[OF assms] by (simp add: in_flight_def)

lemma frame_rotation:
  assumes "in_flight a w"
  shows "rotation (frame t w) = currentRotationValue a t"
proof (cases "progress_at a t < 1")
  case True
  show ?thesis unfolding frame_continue[OF assms True] by simp
next
  case False
  have "endRotation a = startRotation a + angleDiff a" using assms by (simp add: in_flight_def)
  from currentRotationValue_final[OF False this]
  show ?thesis unfolding frame_complete[OF assms False] by simp
qed

lemma frame_complete_idle:
  assumes "in_flight a w" and "\<not> progress_at a t < 1"
  shows "idle (frame t w)"
  unfolding frame_complete[OF assms] by (simp add: idle_def)

lemma frame_rotations_no_callback: "pending w = [] \<Longrightarrow> frame_rotations ts w = []"
  by (induction ts) simp_all

lemma frame_rotations_in_flight:
  assumes "in_flight a w"
  shows "\<exists>k. frame_rotations ts w = map (currentRotationValue a) (take k ts)"
  using assms
proof (induction ts arbitrary: w)
  case Nil
  then show ?case by simp
next
  case (Cons t ts)
  have p: "pending w \<noteq> []" using Cons.prems by (simp add: in_flight_def)
  have r: "rotation (frame t w) = currentRotationValue a t" by (rule frame_rotation[OF Cons.prems])
  show ?case
  proof (cases "progress_at a t < 1")
    case True
    from Cons.IH[OF in_flight_frame[OF Cons.prems True]]
    obtain k where "frame_rotations ts (frame t w) = map (currentRotationValue a) (take k ts)" ..
    then have "frame_rotations (t # ts) w = map (currentRotationValue a) (take (Suc k) (t # ts))"
      using p r by simp
    then show ?thesis ..
  next
    case False
    have "pending (frame t w) = []" using frame_complete_idle[OF Cons.prems False] by (simp add: idle_def)
    then have "frame_rotations ts (frame t w) = []" by (rule frame_rotations_no_callback)
    then have "frame_rotations (t # ts) w = map (currentRotationValue a) (take (Suc 0) (t # ts))"
      using p r by simp
    then show ?thesis ..
  qed
qed

lemma sorted_map_take:
  fixes f :: "real \<Rightarrow> real"
  assumes "sorted ts" and "\<And>x y. x \<le> y \<Longrightarrow> f x \<le> f y"
  shows "sorted (map f (take k ts))"
proof -
  have "sorted (take k ts)" using assms(1) by (rule sorted_wrt_take)
  then have "sorted_wrt (\<lambda>x y. f x \<le> f y) (take k ts)"
    by (rule sorted_wrt_mono_rel[rotated]) (simp add: assms(2))
  then show ?thesis by (simp add: sorted_map)
qed

lemma forward_angle_range: "0 \<le> forward_angle cur target \<and> forward_angle cur target < 360"
proof -
  define q where "q = (target - cur) / 360"
  define fl :: real where "fl = of_int \<lfloor>q\<rfloor>"
  have f: "fl \<le> q" "q < fl + 1" unfolding fl_def by linarith+
  have "forward_angle cur target = 360 * (q - fl)"
    unfolding forward_angle_def q_def fl_def by (simp add: algebra_simps)
  then show ?thesis using f by simp
qed

lemma forward_angle_reaches:
  "\<exists>k::int. cur + forward_angle cur target = target + 360 * of_int k"
proof -
  have "cur + forward_angle cur target = target + 360 * of_int (- \<lfloor>(target - cur) / 360\<rfloor>)"
    by (simp add: forward_angle_def)
  then show ?thesis ..
qed

lemma forward_angle_upper:
  assumes "- 360 < target - cur"
  shows "forward_angle cur target \<le> target - cur + 360"
proof -
  have "- 1 < (target - cur) / 360" using assms by simp
  then have "- 1 \<le> \<lfloor>(target - cur) / 360\<rfloor>" by (simp add: le_floor_iff)
  then have "- 1 \<le> (of_int \<lfloor>(target - cur) / 360\<rfloor> :: real)" by linarith
  then show ?thesis by (simp add: forward_angle_def)
qed

lemma total_delta_lower:
  assumes "its \<noteq> []" "0 \<le> r1" "r1 < 1" "0 \<le> r2"
  shows "2 * 360 + forward_angle (normalizedRotation rot) (baseTargetAngle its r1)
           \<le> angleDiff (spin_closure its rot r1 r2 now)"
proof -
  let ?cur = "normalizedRotation rot" and ?base = "baseTargetAngle its r1"
  have b: "0 < ?base" using base_target_range(1)[OF assms(1-3)] .
  have c: "?cur < 360" using normalizedRotation_bounds[of rot] by simp
  have "forward_angle ?cur ?base \<le> ?base - ?cur + 360"
    using b c by (intro forward_angle_upper) simp
  moreover have "1080 \<le> 360 * fullRotations r2" using assms(4) by (simp add: fullRotations_def)
  moreover have "angleDiff (spin_closure its rot r1 r2 now) = ?base + 360 * fullRotations r2 - ?cur"
    using raw_angleDiff_lower[OF assms, of rot]
    by (simp add: spin_closure_simps raw_angleDiff_def targetAngle_def)
  ultimately show ?thesis by linarith
qed

text \<open>
  When no frame is stamped before the start of the spin, the rotations of the frames
  do not fall below the rotation the spin starts from.
\<close>

lemma currentRotationValue_at_start:
  assumes "0 < duration a"
  shows "currentRotationValue a (startTime a) = startRotation a"
  using assms by (simp add: currentRotationValue_def progress_at_def easedProgress_def)

lemma frame_rotations_from_start:
  assumes "idle w" and "items w \<noteq> []" and "0 \<le> r1" and "r1 < 1" and "0 \<le> r2"
    and "sorted ts" and "\<forall>t \<in> set ts. now \<le> t"
  shows "sorted (rotation w # frame_rotations ts (spinWheel r1 r2 now w))"
proof -
  let ?a = "spin_closure (items w) (rotation w) r1 r2 now"
  note pos = spin_closure_positive[OF assms(2-5), of "rotation w" now]
  have fl: "in_flight ?a (spinWheel r1 r2 now w)"
    by (rule spinWheel_in_flight(1)[OF assms(1,2)])
  obtain k where k: "frame_rotations ts (spinWheel r1 r2 now w) = map (currentRotationValue ?a) (take k ts)"
    using frame_rotations_in_flight[OF fl] ..
  have mono: "\<And>x y. x \<le> y \<Longrightarrow> currentRotationValue ?a x \<le> currentRotationValue ?a y"
    using pos by (intro currentRotationValue_mono) simp_all
  have st: "currentRotationValue ?a now = rotation w"
    using currentRotationValue_at_start[OF pos(2)] by (simp add: spin_closure_simps(4,5))
  have "sorted (now # ts)" using assms(6,7) by simp
  then have "sorted (take (Suc k) (now # ts))" by (rule sorted_wrt_take)
  then have "sorted (now # take k ts)" by simp
  then have "sorted_wrt (\<lambda>x y. currentRotationValue ?a x \<le> currentRotationValue ?a y) (now # take k ts)"
    by (rule sorted_wrt_mono_rel[rotated]) (simp add: mono)
  then have "sorted (map (currentRotationValue ?a) (now # take k ts))"
    by (simp only: sorted_map)
  then show ?thesis by (simp only: k list.map st)
qed

lemma completions_append: "completions (xs @ ys) = completions xs @ completions ys"
  by (induction xs rule: completions.induct) simp_all

lemma run_frames_append: "run_frames (xs @ ys) w = run_frames ys (run_frames xs w)"
  by (induction xs arbitrary: w) simp_all

lemma run_frames_continue:
  assumes "in_flight a w" and "\<forall>t \<in> set ts. progress_at a t < 1"
  shows "in_flight a (run_frames ts w)
       \<and> items (run_frames ts w) = items w
       \<and> (\<exists>es. trace (run_frames ts w) = trace w @ es \<and> completions es = [])"
  using assms
proof (induction ts arbitrary: w)
  case Nil
  then show ?case by simp
next
  case (Cons t ts)
  have lt: "progress_at a t < 1" and rest: "\<forall>t \<in> set ts. progress_at a t < 1"
    using Cons.prems(2) by simp_all
  have fl: "in_flight a (frame t w)" by (rule in_flight_frame[OF Cons.prems(1) lt])
  from Cons.IH[OF fl rest] obtain es where
    es: "in_flight a (run_frames ts (frame t w))" "items (run_frames ts (frame t w)) = items (frame t w)"
      "trace (run_frames ts (frame t w)) = trace (frame t w) @ es" "completions es = []"
    by blast
  have it: "items (frame t w) = items w"
    unfolding frame_continue[OF Cons.prems(1) lt] by simp
  obtain es0 where es0: "trace (frame t w) = trace w @ es0" "completions es0 = []"
    unfolding frame_continue[OF Cons.prems(1) lt] by simp
  have "trace (run_frames (t # ts) w) = trace w @ (es0 @ es)" "completions (es0 @ es) = []"
    using es es0 by (simp_all add: completions_append)
  then show ?case using es(1,2) it by auto
qed

lemma final_frame_iff:
  assumes "0 < duration a"
  shows "(\<not> progress_at a t < 1) \<longleftrightarrow> startTime a + duration a \<le> t"
  using assms by (simp add: progress_at_def min_less_iff_disj pos_divide_less_eq not_less algebra_simps)

lemma run_frames_complete:
  assumes fl: "in_flight a w" and ex: "\<exists>t \<in> set ts. \<not> progress_at a t < 1"
  shows "\<exists>es. trace (run_frames ts w) =
              trace w @ es @ [SetRotation (endRotation a), SetAnimating False]
                @ (case targetItem a of Some item \<Rightarrow> [SpinComplete item] | None \<Rightarrow> [])
            \<and> completions es = []"
    and "idle (run_frames ts w)"
    and "rotation (run_frames ts w) = endRotation a"
proof -
  from split_list_first_prop[OF ex] obtain ys x zs where
    ts: "ts = ys @ x # zs" and x: "\<not> progress_at a x < 1" and ys: "\<forall>y \<in> set ys. progress_at a y < 1"
    by auto
  let ?w1 = "run_frames ys w"
  from run_frames_continue[OF fl ys] obtain es where
    w1: "in_flight a ?w1" "items ?w1 = items w" "trace ?w1 = trace w @ es" "completions es = []"
    by blast
  let ?w2 = "frame x ?w1"
  have idle2: "idle ?w2" by (rule frame_complete_idle[OF w1(1) x])
  then have "pending ?w2 = []" by (simp add: idle_def)
  then have r: "run_frames ts w = ?w2"
    by (simp add: ts run_frames_append run_frames_no_callback)
  let ?it = "highlighted a (items ?w1) (endRotation a)"
  have tr: "trace ?w2 = trace w @ (es @ [SetRotation (endRotation a), SelectStation ?it])
               @ [SetRotation (endRotation a), SetAnimating False]
               @ (case targetItem a of Some item \<Rightarrow> [SpinComplete item] | None \<Rightarrow> [])"
    unfolding frame_complete[OF w1(1) x] by (simp add: w1(3))
  have c: "completions (es @ [SetRotation (endRotation a), SelectStation ?it]) = []"
    by (simp add: completions_append w1(4))
  show "\<exists>es. trace (run_frames ts w) =
              trace w @ es @ [SetRotation (endRotation a), SetAnimating False]
                @ (case targetItem a of Some item \<Rightarrow> [SpinComplete item] | None \<Rightarrow> [])
            \<and> completions es = []"
    unfolding r using tr c by blast
  show "idle (run_frames ts w)" unfolding r by (rule idle2)
  show "rotation (run_frames ts w) = endRotation a"
    unfolding r frame_complete[OF w1(1) x] by simp
qed

lemma easedProgress_spec: "easedProgress p = eased_spec p"
  by (simp add: easedProgress_def eased_spec_def power3_eq_cube mult.assoc)

lemma getRandomElement_in_range:
  assumes "xs \<noteq> []" "0 \<le> r" "r < 1"
  shows "nat \<lfloor>r * js_length xs\<rfloor> < length xs"
    and "getRandomElement r xs = Some (xs ! nat \<lfloor>r * js_length xs\<rfloor>)"
proof -
  have n: "0 < length xs" using assms(1) by simp
  define k where "k = \<lfloor>r * real (length xs)\<rfloor>"
  have k: "0 \<le> k" "k < int (length xs)"
    using floor_scaled_range[OF n assms(2,3)] by (simp_all add: k_def)
  have e: "\<lfloor>r * js_length xs\<rfloor> = k" by (simp add: k_def js_length_def)
  have nk: "nat k < length xs" using k by linarith
  show "nat \<lfloor>r * js_length xs\<rfloor> < length xs" unfolding e by (rule nk)
  have "js_index xs (of_int k) = Some (xs ! nat k)" by (rule js_index_of_int[OF k(1) nk])
  then show "getRandomElement r xs = Some (xs ! nat \<lfloor>r * js_length xs\<rfloor>)"
    using assms(1) by (simp add: getRandomElement_def js_floor_def e Let_def)
qed

text \<open>
  Whatever spins are triggered and whatever frames come, a wheel that starts idle is
  idle or in flight: a spin is accepted only by an idle wheel.
\<close>

lemma spinWheel_rejected: "items w = [] \<or> isAnimating w \<Longrightarrow> spinWheel r1 r2 now w = w"
  by (auto simp: spinWheel_def)

lemma step_idle_or_in_flight:
  assumes "idle w \<or> (\<exists>a. in_flight a w)"
  shows "idle (step op w) \<or> (\<exists>a. in_flight a (step op w))"
proof (cases op)
  case (Spin r1 r2 now)
  show ?thesis
  proof (cases "items w = [] \<or> isAnimating w")
    case True
    then show ?thesis using assms by (simp add: Spin spinWheel_rejected)
  next
    case False
    then have "idle w" using assms by (auto simp: in_flight_def)
    with False have "in_flight (spin_closure (items w) (rotation w) r1 r2 now) (spinWheel r1 r2 now w)"
      by (intro spinWheel_in_flight(1)) simp_all
    then show ?thesis unfolding Spin by auto
  qed
next
  case (Frame t)
  from assms show ?thesis
  proof
    assume "idle w"
    then show ?thesis by (simp add: Frame frame_no_callback idle_def)
  next
    assume "\<exists>a. in_flight a w"
    then obtain a where a: "in_flight a w" ..
    show ?thesis
    proof (cases "progress_at a t < 1")
      case True
      then show ?thesis using in_flight_frame[OF a True] by (auto simp: Frame)
    next
      case False
      then show ?thesis using frame_complete_idle[OF a False] by (simp add: Frame)
    qed
  qed
qed

lemma run_ops_idle_or_in_flight:
  assumes "idle w \<or> (\<exists>a. in_flight a w)"
  shows "idle (run_ops ops w) \<or> (\<exists>a. in_flight a (run_ops ops w))"
  using assms unfolding run_ops_def
proof (induction ops arbitrary: w)
  case Nil
  then show ?case by simp
next
  case (Cons op ops)
  from step_idle_or_in_flight[OF Cons.prems, of op] Cons.IH show ?case by simp
qed

lemma accepted_spin_starts_idle:
  assumes "idle w0" and "w = run_ops ops w0" and "\<not> isAnimating w"
  shows "idle w"
  using run_ops_idle_or_in_flight[of w0 ops] assms by (auto simp: in_flight_def)

text \<open>The read of the watcher \<^verbatim>\<open>updateCurrentItem\<close> is inside the array as well.\<close>

lemma watcher_index_defined:
  fixes its :: "MetroStation list"
  assumes "its \<noteq> []"
  shows "js_index its (js_rem (js_length its - js_floor (normalizedRotation v / (360 / js_length its)))
                               (js_length its)) \<noteq> None"
proof -
  let ?a = "spin_closure its 0 0 0 0"
  have t: "totalItems ?a = js_length its" and s: "sliceAngle ?a = 360 / js_length its"
    by (simp_all add: spin_closure_simps)
  from frame_item_defined[OF assms t s, of v] updateCurrentItem_index[OF assms t s, of v]
  show ?thesis by auto
qed

text \<open>
  A read at a natural index, whatever the list; a frame whose read is outside the
  list leaves the store alone (the guard \<^verbatim>\<open>if (newItem)\<close>); and the watcher, which takes
  both the index and the item from the live list, reads inside it whenever it has items.
\<close>

lemma js_index_nat:
  "js_index xs (real j) = (if j < length xs then Some (xs ! j) else None)"
  by (simp add: js_index_def)

lemma animate_undefined_item:
  assumes "isAnimating w"
    and "js_index (items w) (newItem_index a (currentRotationValue a t)) = None"
  shows "metroStore (animate a t w) = metroStore w"
  using assms by (cases "targetItem a") (simp_all add: animate_def Let_def)

lemma watcher_read_live:
  fixes live :: "MetroStation list"
  shows "(js_index live (js_rem (js_length live - js_floor (normalizedRotation v / (360 / js_length live)))
                               (js_length live)) \<noteq> None) \<longleftrightarrow> live \<noteq> []"
proof (cases "live = []")
  case True
  then show ?thesis by (simp add: js_index_def)
next
  case False
  then show ?thesis using watcher_index_defined[OF False, of v] by simp
qed

section \<open>The station index\<close>

subsection \<open>The converter's list of names\<close>



subsection \<open>The map as a list of keys and a function\<close>

lemma insert_new_props:
  "set (insert_new x ks) = insert x (set ks)"
  "distinct ks \<Longrightarrow> distinct (insert_new x ks)"
  by (auto simp: insert_new_def)

lemma fold_insert_new_props:
  "set (fold insert_new xs ks) = set ks \<union> set xs"
  "distinct ks \<Longrightarrow> distinct (fold insert_new xs ks)"
  by (induction xs arbitrary: ks) (auto simp: insert_new_props)


lemma station_map_cong:
  "(\<And>k. k \<in> set ks \<Longrightarrow> f k = g k) \<Longrightarrow> station_map ks f = station_map ks g"
  by (simp add: station_map_def)

lemma map_of_station_map:
  "map_of (station_map ks f) k = (if k \<in> set ks then Some \<lparr>st_name = k, st_lines = f k\<rparr> else None)"
  by (induction ks) (auto simp: station_map_def)

lemma update_station_map:
  assumes "distinct ks"
  shows "AList.update k \<lparr>st_name = k, st_lines = x\<rparr> (station_map ks f)
           = station_map (insert_new k ks) (f(k := x))"
  using assms
proof (induction ks)
  case Nil
  then show ?case by (simp add: station_map_def insert_new_def)
next
  case (Cons a ks)
  show ?case
  proof (cases "a = k")
    case True
    then have "k \<notin> set ks" using Cons.prems by simp
    then have "station_map ks (f(k := x)) = station_map ks f"
      by (intro station_map_cong) auto
    then show ?thesis using True by (simp add: station_map_def insert_new_def)
  next
    case False
    have d: "distinct ks" using Cons.prems by simp
    have "insert_new k (a # ks) = a # insert_new k ks" using False by (simp add: insert_new_def)
    then show ?thesis using False Cons.IH[OF d] by (simp add: station_map_def)
  qed
qed

lemma index_station_station_map:
  assumes "distinct ks" and "k \<noteq> []" and "\<And>k'. k' \<notin> set ks \<Longrightarrow> f k' = []"
  shows "index_station l k (station_map ks f)
           = station_map (insert_new k ks) (f(k := f k @ [lineTag l]))"
proof (cases "k \<in> set ks")
  case True
  then have "insert_new k ks = ks" by (simp add: insert_new_def)
  then show ?thesis
    using True assms(2) update_station_map[OF assms(1), of k "f k @ [lineTag l]" f]
    by (simp add: index_station_def Map_has_def Map_get_def Map_set_def map_of_station_map)
next
  case False
  let ?m1 = "station_map (insert_new k ks) (f(k := []))"
  have m1: "AList.update k \<lparr>st_name = k, st_lines = []\<rparr> (station_map ks f) = ?m1"
    by (rule update_station_map[OF assms(1)])
  have d1: "distinct (insert_new k ks)" by (rule insert_new_props(2)[OF assms(1)])
  have i2: "insert_new k (insert_new k ks) = insert_new k ks" by (simp add: insert_new_def)
  have "AList.update k \<lparr>st_name = k, st_lines = [] @ [lineTag l]\<rparr> ?m1
          = station_map (insert_new k ks) ((f(k := []))(k := [] @ [lineTag l]))"
    using update_station_map[OF d1, of k "[] @ [lineTag l]" "f(k := [])"] by (simp add: i2)
  moreover have "f k = []" using False by (rule assms(3))
  ultimately show ?thesis
    using False assms(2) m1
    by (simp add: index_station_def Map_has_def Map_get_def Map_set_def map_of_station_map
        insert_new_props(1))
qed

lemma fold_index_line_visits:
  "fold index_line lines m = fold (\<lambda>p. index_station (fst p) (snd p)) (visits lines) m"
proof (induction lines arbitrary: m)
  case Nil
  then show ?case by (simp add: visits_def)
next
  case (Cons l lines)
  have "fold (\<lambda>p. index_station (fst p) (snd p)) (map (Pair l) (stations l)) m = index_line l m"
    by (simp add: index_line_def fold_map comp_def)
  then show ?case using Cons.IH by (simp add: visits_def)
qed

lemma visit_tags_Cons:
  "visit_tags (p # ps) k = (if snd p = k then lineTag (fst p) # visit_tags ps k else visit_tags ps k)"
  by (simp add: visit_tags_def)

lemma fold_visits_station_map:
  assumes "distinct ks" and "[] \<notin> set ks" and "\<And>k'. k' \<notin> set ks \<Longrightarrow> f k' = []"
  shows "fold (\<lambda>p. index_station (fst p) (snd p)) ps (station_map ks f)
           = station_map (fold insert_new (filter (\<lambda>k. k \<noteq> []) (map snd ps)) ks)
               (\<lambda>k. f k @ visit_tags ps k)"
  using assms
proof (induction ps arbitrary: ks f)
  case Nil
  then show ?case by (simp add: visit_tags_def)
next
  case (Cons p ps)
  let ?F = "\<lambda>p. index_station (fst p) (snd p)"
  obtain l k where p: "p = (l, k)" by (cases p)
  have step: "fold ?F (p # ps) (station_map ks f) = fold ?F ps (index_station l k (station_map ks f))"
    by (simp add: p)
  show ?case
  proof (cases "k = []")
    case True
    let ?K = "fold insert_new (filter (\<lambda>k. k \<noteq> []) (map snd ps)) ks"
    have keys: "fold insert_new (filter (\<lambda>k. k \<noteq> []) (map snd (p # ps))) ks = ?K"
      using True by (simp add: p)
    have st: "index_station l k (station_map ks f) = station_map ks f"
      using True by (simp add: index_station_def)
    have ih: "fold ?F ps (station_map ks f) = station_map ?K (\<lambda>k'. f k' @ visit_tags ps k')"
      by (rule Cons.IH[OF Cons.prems(1,2)]) (rule Cons.prems(3))
    have K: "[] \<notin> set ?K" using Cons.prems(2) by (simp add: fold_insert_new_props(1))
    have "station_map ?K (\<lambda>k'. f k' @ visit_tags ps k') = station_map ?K (\<lambda>k'. f k' @ visit_tags (p # ps) k')"
    proof (rule station_map_cong)
      fix k' assume "k' \<in> set ?K"
      with K have "k' \<noteq> []" by auto
      then show "f k' @ visit_tags ps k' = f k' @ visit_tags (p # ps) k'"
        using True by (simp add: visit_tags_Cons p)
    qed
    then show ?thesis unfolding step st ih keys .
  next
    case False
    let ?ks = "insert_new k ks" and ?f = "f(k := f k @ [lineTag l])"
    let ?K = "fold insert_new (filter (\<lambda>k. k \<noteq> []) (map snd ps)) ?ks"
    have keys: "fold insert_new (filter (\<lambda>k. k \<noteq> []) (map snd (p # ps))) ks = ?K"
      using False by (simp add: p)
    have st: "index_station l k (station_map ks f) = station_map ?ks ?f"
      by (rule index_station_station_map[OF Cons.prems(1) False Cons.prems(3)])
    have d: "distinct ?ks" by (rule insert_new_props(2)[OF Cons.prems(1)])
    have e: "[] \<notin> set ?ks" using False Cons.prems(2) by (auto simp: insert_new_props(1))
    have z: "\<And>k'. k' \<notin> set ?ks \<Longrightarrow> ?f k' = []"
      using Cons.prems(3) by (simp add: insert_new_props(1))
    have ih: "fold ?F ps (station_map ?ks ?f) = station_map ?K (\<lambda>k'. ?f k' @ visit_tags ps k')"
      by (rule Cons.IH[OF d e]) (rule z)
    have g: "(\<lambda>k'. ?f k' @ visit_tags ps k') = (\<lambda>k'. f k' @ visit_tags (p # ps) k')"
      by (rule ext) (simp add: visit_tags_Cons p)
    show ?thesis unfolding step st ih keys g ..
  qed
qed

lemma stationMap_eq:
  "fold index_line lines []
     = station_map (first_occurrences (filter (\<lambda>k. k \<noteq> []) (map snd (visits lines))))
         (visit_tags (visits lines))"
proof -
  have "fold (\<lambda>p. index_station (fst p) (snd p)) (visits lines) (station_map [] (\<lambda>k. []))
          = station_map (fold insert_new (filter (\<lambda>k. k \<noteq> []) (map snd (visits lines))) [])
              (\<lambda>k. [] @ visit_tags (visits lines) k)"
    by (rule fold_visits_station_map) simp_all
  then show ?thesis
    by (simp add: fold_index_line_visits first_occurrences_def station_map_def)
qed

lemma map_snd_visits: "map snd (visits lines) = concat (map stations lines)"
  by (induction lines) (simp_all add: visits_def comp_def)

lemma visit_tags_append: "visit_tags (ps @ qs) k = visit_tags ps k @ visit_tags qs k"
  by (simp add: visit_tags_def)

lemma visit_tags_line:
  "visit_tags (map (Pair l) ss) k = replicate (count_list ss k) (lineTag l)"
  by (induction ss) (simp_all add: visit_tags_def)

lemma visit_tags_visits:
  "visit_tags (visits lines) k
     = concat (map (\<lambda>l. replicate (count_list (stations l) k) (lineTag l)) lines)"
proof (induction lines)
  case Nil
  then show ?case by (simp add: visits_def visit_tags_def)
next
  case (Cons l lines)
  have "visits (l # lines) = map (Pair l) (stations l) @ visits lines" by (simp add: visits_def)
  then show ?case using Cons.IH by (simp add: visit_tags_append visit_tags_line)
qed



lemma buildStationIndex_eq:
  "buildStationIndex lines =
     map (\<lambda>k. \<lparr>st_name = k, st_lines = concat (map (\<lambda>l. replicate (count_list (stations l) k) (lineTag l)) lines)\<rparr>)
       (first_occurrences (filter (\<lambda>k. k \<noteq> []) (concat (map stations lines))))"
  by (simp add: buildStationIndex_def stationMap_eq station_map_def comp_def map_snd_visits
      visit_tags_visits)




subsection \<open>The index of small datasets\<close>

text \<open>
  The index of the example dataset; the index of a line that names a station twice,
  where the loader lists the line twice; and the same line through the converter
  (with the identity for \<^verbatim>\<open>trim\<close>), where the line is listed once.
\<close>

lemma buildStationIndex_example:
  "buildStationIndex example_lines =
     [\<lparr>st_name = ''X'', st_lines = [\<lparr>tag_name = ''Line 1'', tag_color = ''#F3D03E''\<rparr>]\<rparr>,
      \<lparr>st_name = ''Y'', st_lines = [\<lparr>tag_name = ''Line 1'', tag_color = ''#F3D03E''\<rparr>,
                                    \<lparr>tag_name = ''Line 2'', tag_color = ''#00629B''\<rparr>]\<rparr>,
      \<lparr>st_name = ''Z'', st_lines = [\<lparr>tag_name = ''Line 2'', tag_color = ''#00629B''\<rparr>]\<rparr>]"
  by (simp add: buildStationIndex_def example_lines_def index_line_def index_station_def
      Map_has_def Map_get_def Map_set_def lineTag_def)

lemma buildStationIndex_repeated_name:
  "buildStationIndex
     [\<lparr>line_id = ''1'', line_name = ''Line 1'', line_color = ''#F3D03E'', stations = [''X'', ''X'']\<rparr>] =
     [\<lparr>st_name = ''X'', st_lines = [\<lparr>tag_name = ''Line 1'', tag_color = ''#F3D03E''\<rparr>,
                                    \<lparr>tag_name = ''Line 1'', tag_color = ''#F3D03E''\<rparr>]\<rparr>]"
  by (simp add: buildStationIndex_def index_line_def index_station_def
      Map_has_def Map_get_def Map_set_def lineTag_def)

lemma convert_repeated_name:
  "buildStationIndex
     (convert (\<lambda>s. s) (\<lambda>l. (lineShowCode l, lineName l, lineColor l))
        [\<lparr>lineShowCode = ''1'', lineName = ''Line 1'', lineNameEn = ''Line 1'', lineColor = ''#F3D03E'',
          src_stations = [''X'', ''X'', '''']\<rparr>]) =
     [\<lparr>st_name = ''X'', st_lines = [\<lparr>tag_name = ''Line 1'', tag_color = ''#F3D03E''\<rparr>]\<rparr>]"
  by (simp add: convert_def List.map_filter_simps convert_line_def stationNames_def add_stationName_def
      Let_def buildStationIndex_def index_line_def index_station_def
      Map_has_def Map_get_def Map_set_def lineTag_def)

section \<open>Runs of the example wheel\<close>

lemmas eval_defs =
  idle_def example_wheel_def example_items_def fresh_store_def spinWheel_def spin_closure_def Let_def
  raw_angleDiff_def targetAngle_def baseTargetAngle_def targetIndex_def fullRotations_def
  normalizedRotation_def js_rem_def js_floor_def js_length_def js_index_def forward_angle_def
  frame_def animate_def progress_at_def easedProgress_def currentRotationValue_def
  newItem_index_def currentIndex_def store_selectStation_def selectStation_def updateCurrentItem_def
  pointer_angle_def sector_under_pointer_def

lemma spin_example:
  "spinWheel (1/2) (1/4) 0 (example_wheel 0) =
     \<lparr>items = example_items, rotation = 0, currentRotation = 0, isAnimating = True,
      metroStore = fresh_store,
      pending = [\<lparr>totalItems = 4, sliceAngle = 90, targetItem = Some \<lparr>st_name = ''C'', st_lines = []\<rparr>,
                  startTime = 0, startRotation = 0, endRotation = 1440, angleDiff = 1440,
                  duration = 3000\<rparr>],
      trace = [SetAnimating True]\<rparr>"
  by (simp add: example_wheel_def example_items_def spinWheel_def spin_closure_def Let_def
      raw_angleDiff_def targetAngle_def baseTargetAngle_def targetIndex_def fullRotations_def
      normalizedRotation_def js_rem_def js_floor_def js_length_def js_index_def)

lemma final_example:
  "run_frames [5000] (spinWheel (1/2) (1/4) 0 (example_wheel 0)) =
     \<lparr>items = example_items, rotation = 1440, currentRotation = 1440, isAnimating = False,
      metroStore = fresh_store\<lparr>selectedStation := Some \<lparr>st_name = ''A'', st_lines = []\<rparr>\<rparr>,
      pending = [],
      trace = [SetAnimating True, SetRotation 1440, SelectStation \<lparr>st_name = ''A'', st_lines = []\<rparr>,
               SetRotation 1440, SetAnimating False, SpinComplete \<lparr>st_name = ''C'', st_lines = []\<rparr>]\<rparr>"
  unfolding spin_example
  by (simp add: example_items_def fresh_store_def Let_def
      normalizedRotation_def js_rem_def js_floor_def js_length_def js_index_def
      frame_def animate_def progress_at_def easedProgress_def currentRotationValue_def
      newItem_index_def currentIndex_def store_selectStation_def selectStation_def updateCurrentItem_def)

lemma mid_example:
  "run_frames [1000] (spinWheel (1/2) (1/4) 0 (example_wheel 0)) =
     \<lparr>items = example_items, rotation = 160, currentRotation = 160, isAnimating = True,
      metroStore = fresh_store\<lparr>selectedStation := Some \<lparr>st_name = ''D'', st_lines = []\<rparr>\<rparr>,
      pending = [\<lparr>totalItems = 4, sliceAngle = 90, targetItem = Some \<lparr>st_name = ''C'', st_lines = []\<rparr>,
                  startTime = 0, startRotation = 0, endRotation = 1440, angleDiff = 1440,
                  duration = 3000\<rparr>],
      trace = [SetAnimating True, SetRotation 160, SelectStation \<lparr>st_name = ''D'', st_lines = []\<rparr>]\<rparr>"
  unfolding spin_example
  by (simp add: example_items_def fresh_store_def Let_def
      normalizedRotation_def js_rem_def js_floor_def js_length_def js_index_def
      frame_def animate_def progress_at_def easedProgress_def currentRotationValue_def
      newItem_index_def currentIndex_def store_selectStation_def selectStation_def updateCurrentItem_def)

text \<open>
  A frame stamped before \<^verbatim>\<open>performance.now()\<close> of the spin has a negative progress and
  turns the wheel backwards, below the rotation the spin starts from.
\<close>

lemma frame_before_start_example:
  "frame_rotations [-100] (spinWheel (1/2) (1/4) 0 (example_wheel 0)) = [- 4 / 25]"
  by code_simp

lemma example_accepted:
  "idle (example_wheel 10)" "items (example_wheel 10) \<noteq> []"
  "(0::real) \<le> 1/2" "(1/2::real) < 1" "sorted [100, 1000, 5000 :: real]"
  by (simp_all add: idle_def example_wheel_def example_items_def)

lemma example_closure:
  "duration (spin_closure (items (example_wheel 10)) (rotation (example_wheel 10)) (1/2) (1/2) 0) = 29125 / 9"
  by (simp add: eval_defs)

lemma double_mode_example:
  "selectedLine (spin_resume (1/2) example_store) = Some (example_lines ! 1)"
  by (simp add: spin_resume_def example_store_def example_lines_def selectRandomLine_def
      getRandomElement_def js_floor_def js_length_def js_index_def Let_def)

text \<open>
  The wheel of four items is spun from rest at 0 with \<open>r1 = r2 = 1/2\<close> (duration 3250),
  and the host then replaces the items by a list of two. At the frame stamped 3100 the
  closure still counts four sectors of 90 degrees and computes index 3.
\<close>

lemma shrunk_example_spin:
  "set_items example_two_items (spinWheel (1/2) (1/2) 0 (example_wheel 0)) =
     \<lparr>items = example_two_items, rotation = 0, currentRotation = 0, isAnimating = True,
      metroStore = fresh_store\<lparr>selectedStation := Some \<lparr>st_name = ''X'', st_lines = []\<rparr>\<rparr>,
      pending = [spin_closure example_items 0 (1/2) (1/2) 0],
      trace = [SetAnimating True, SelectStation \<lparr>st_name = ''X'', st_lines = []\<rparr>]\<rparr>"
  by (simp add: set_items_def spinWheel_def example_wheel_def example_items_def example_two_items_def
      fresh_store_def updateCurrentItem_def Let_def normalizedRotation_def js_rem_def js_floor_def
      js_length_def js_index_def store_selectStation_def selectStation_def)

lemma shrunk_example_closure:
  "totalItems (spin_closure example_items 0 (1/2) (1/2) 0) = 4"
  "sliceAngle (spin_closure example_items 0 (1/2) (1/2) 0) = 90"
  "duration (spin_closure example_items 0 (1/2) (1/2) 0) = 3250"
  "currentRotationValue (spin_closure example_items 0 (1/2) (1/2) 0) 3100 = 1620 - 1049760 / 17850625"
  by (simp_all add: eval_defs power_divide)

lemma shrunk_example_index:
  "newItem_index (spin_closure example_items 0 (1/2) (1/2) 0)
     (currentRotationValue (spin_closure example_items 0 (1/2) (1/2) 0) 3100) = 3"
  unfolding shrunk_example_closure(4)
  by (simp add: newItem_index_def currentIndex_def shrunk_example_closure(1,2)
      normalizedRotation_def js_rem_def js_floor_def)

section \<open>Landing and highlight in general\<close>

text \<open>
  When the extra turns are a whole number, the wheel stops on the base target angle and
  the lookup of \<^verbatim>\<open>animate\<close> at the final angle gives back the target item.
\<close>

lemma endRotation_congruent:
  assumes "fullRotations r2 = of_int m"
  shows "\<exists>j::int. endRotation (spin_closure its rot r1 r2 now) = baseTargetAngle its r1 + 360 * of_int j"
proof -
  let ?a = "spin_closure its rot r1 r2 now"
  have raw: "rot + raw_angleDiff its rot r1 r2
               = baseTargetAngle its r1 + 360 * of_int (m + \<lfloor>rot / 360\<rfloor>)"
    by (simp add: raw_angleDiff_def targetAngle_def assms normalizedRotation_eq algebra_simps)
  show ?thesis
  proof (cases "raw_angleDiff its rot r1 r2 < 0")
    case True
    then have "endRotation ?a = rot + raw_angleDiff its rot r1 r2 + 360"
      by (simp add: spin_closure_simps)
    also have "\<dots> = baseTargetAngle its r1 + 360 * of_int (m + \<lfloor>rot / 360\<rfloor> + 1)"
      unfolding raw by simp
    finally show ?thesis ..
  next
    case False
    then have "endRotation ?a = rot + raw_angleDiff its rot r1 r2"
      by (simp add: spin_closure_simps)
    then show ?thesis unfolding raw ..
  qed
qed

lemma newItem_index_at_base:
  assumes "its \<noteq> []" "0 \<le> r1" "r1 < 1"
    and t: "totalItems a = js_length its" and s: "sliceAngle a = 360 / js_length its"
    and v: "normalizedRotation v = normalizedRotation (baseTargetAngle its r1)"
  shows "newItem_index a v = targetIndex its r1"
proof -
  define n where "n = length its"
  have n: "0 < n" using assms(1) by (simp add: n_def)
  define i where "i = \<lfloor>r1 * real n\<rfloor>"
  have i: "0 \<le> i" "i < int n" using floor_scaled_range[OF n assms(2,3)] by (simp_all add: i_def)
  have ti: "targetIndex its r1 = of_int i"
    by (simp add: targetIndex_def js_floor_def js_length_def i_def n_def)
  have base: "baseTargetAngle its r1 = 360 - of_int i * (360 / real n)"
    by (simp add: baseTargetAngle_def ti js_length_def n_def)
  have t': "totalItems a = real n" and s': "sliceAngle a = 360 / real n"
    using t s by (simp_all add: js_length_def n_def)
  note idx = frame_index_eq(2)[OF n t' s', of v]
  show ?thesis
  proof (cases "i = 0")
    case True
    have "normalizedRotation (0 + 360 * of_int 1) = normalizedRotation 0"
      by (rule normalizedRotation_shift)
    then have "normalizedRotation v = 0"
      using True by (simp add: v base normalizedRotation_id)
    then show ?thesis using idx True by (simp add: ti)
  next
    case False
    define k where "k = int n - i"
    have k: "0 < k" "k < int n" using i False by (simp_all add: k_def)
    have b: "baseTargetAngle its r1 = of_int k * (360 / real n)"
      using n by (simp add: base k_def field_simps)
    have "0 < real_of_int k" "real_of_int k < real n" using k by linarith+
    then have "0 \<le> of_int k * (360 / real n)" "of_int k * (360 / real n) < 360"
      using n by (simp_all add: pos_divide_less_eq)
    then have "normalizedRotation v = of_int k * (360 / real n)"
      by (simp add: v b normalizedRotation_id)
    then have "normalizedRotation v / (360 / real n) = of_int k" using n by simp
    then have "\<lfloor>normalizedRotation v / (360 / real n)\<rfloor> = k" by simp
    then show ?thesis using idx k by (simp add: ti k_def)
  qed
qed

lemma landing_exact_for_whole_turns:
  assumes "its \<noteq> []" and "0 \<le> r1" and "r1 < 1" and "fullRotations r2 = of_int m"
  shows "normalizedRotation (endRotation (spin_closure its rot r1 r2 now))
           = normalizedRotation (baseTargetAngle its r1)"
    and "js_index its (newItem_index (spin_closure its rot r1 r2 now)
                         (endRotation (spin_closure its rot r1 r2 now)))
           = targetItem (spin_closure its rot r1 r2 now)"
proof -
  let ?a = "spin_closure its rot r1 r2 now"
  obtain j :: int where "endRotation ?a = baseTargetAngle its r1 + 360 * of_int j"
    using endRotation_congruent[OF assms(4)] by blast
  then show n: "normalizedRotation (endRotation ?a) = normalizedRotation (baseTargetAngle its r1)"
    by (simp add: normalizedRotation_shift)
  have "newItem_index ?a (endRotation ?a) = targetIndex its r1"
    by (rule newItem_index_at_base[OF assms(1-3) _ _ n]) (simp_all add: spin_closure_simps)
  then show "js_index its (newItem_index ?a (endRotation ?a)) = targetItem ?a"
    by (simp add: spin_closure_simps)
qed

text \<open>
  The item \<^verbatim>\<open>animate\<close> highlights against the sector under the pointer: the same sector
  when the rotation is on a sector boundary, the next one (cyclically) everywhere else.
\<close>

lemma pointer_angle_normalized:
  "pointer_angle v = (if normalizedRotation v = 0 then 0 else 360 - normalizedRotation v)"
proof -
  define x where "x = normalizedRotation v"
  define q where "q = \<lfloor>v / 360\<rfloor>"
  have x: "0 \<le> x" "x < 360" using normalizedRotation_bounds[of v] by (simp_all add: x_def)
  have v: "v = x + 360 * of_int q" by (simp add: x_def q_def normalizedRotation_eq)
  have p: "pointer_angle v = normalizedRotation (360 - v)"
    by (simp add: pointer_angle_def normalizedRotation_eq)
  have "360 - v = (360 - x) + 360 * of_int (- q)" by (simp add: v)
  then have p2: "pointer_angle v = normalizedRotation (360 - x)"
    unfolding p by (simp only: normalizedRotation_shift)
  show ?thesis
  proof (cases "x = 0")
    case True
    have "normalizedRotation (0 + 360 * of_int 1) = normalizedRotation 0"
      by (rule normalizedRotation_shift)
    then show ?thesis using True by (simp add: p2 x_def[symmetric] normalizedRotation_id)
  next
    case False
    then have "0 \<le> 360 - x" "360 - x < 360" using x by simp_all
    then show ?thesis using False by (simp add: p2 x_def[symmetric] normalizedRotation_id)
  qed
qed

lemma highlight_versus_pointer:
  fixes v :: real
  assumes "its \<noteq> []" and t: "totalItems a = js_length its" and s: "sliceAngle a = 360 / js_length its"
  defines "y \<equiv> normalizedRotation v / (360 / js_length its)"
  shows "newItem_index a v =
           of_int ((sector_under_pointer its v + (if y = of_int \<lfloor>y\<rfloor> then 0 else 1)) mod int (length its))"
proof -
  define n where "n = length its"
  have n: "0 < n" using assms(1) by (simp add: n_def)
  define x where "x = normalizedRotation v"
  define k where "k = \<lfloor>y\<rfloor>"
  have y: "y = x / (360 / real n)" by (simp add: y_def x_def js_length_def n_def)
  have k: "0 \<le> k" "k < int n"
    using sector_floor_range[OF n, of v] by (simp_all add: k_def y x_def)
  have x: "0 \<le> x" "x < 360" using normalizedRotation_bounds[of v] by (simp_all add: x_def)
  have xy: "x = y * (360 / real n)" using n by (simp add: y)
  have t': "totalItems a = real n" and s': "sliceAngle a = 360 / real n"
    using t s by (simp_all add: js_length_def n_def)
  have idx: "newItem_index a v = of_int (if k = 0 then 0 else int n - k)"
    using frame_index_eq(2)[OF n t' s', of v] by (simp add: k_def y x_def)
  have sec0: "sector_under_pointer its v = 0" if "x = 0"
    using that by (simp add: sector_under_pointer_def pointer_angle_normalized x_def)
  have sec1: "sector_under_pointer its v = \<lfloor>(360 - x) / (360 / real n)\<rfloor>" if "x \<noteq> 0"
    using that
    by (simp add: sector_under_pointer_def pointer_angle_normalized x_def js_length_def n_def)
  have fl: "of_int k \<le> y" "y < of_int k + 1" unfolding k_def by linarith+
  show ?thesis
  proof (cases "y = of_int k")
    case True
    show ?thesis
    proof (cases "k = 0")
      case k0: True
      then have "x = 0" using True by (simp add: xy)
      then show ?thesis using True k0 n by (simp add: idx sec0 k_def[symmetric] n_def[symmetric])
    next
      case False
      then have x0: "x \<noteq> 0" using True n by (simp add: xy)
      have e2: "(360 - x) / (360 / real n) = of_int (int n - k)"
        using n True by (simp add: xy field_simps)
      have "sector_under_pointer its v = int n - k"
        unfolding sec1[OF x0] e2 by (rule floor_of_int)
      moreover have "(int n - k) mod int n = int n - k"
        using k False by (intro mod_pos_pos_trivial) simp_all
      ultimately show ?thesis using True False by (simp add: idx k_def[symmetric] n_def[symmetric])
    qed
  next
    case False
    then have lt: "of_int k < y" using fl by simp
    then have "0 < y" using k by linarith
    then have x0: "x \<noteq> 0" using n by (simp add: xy)
    have e: "(360 - x) / (360 / real n) = real n - y" using n by (simp add: xy field_simps)
    have "real_of_int (int n - k - 1) \<le> real n - y" "real n - y < real_of_int (int n - k - 1) + 1"
      using lt fl by simp_all
    then have "\<lfloor>real n - y\<rfloor> = int n - k - 1" by (simp only: floor_eq_iff)
    then have sv: "sector_under_pointer its v = int n - k - 1" unfolding sec1[OF x0] e .
    have m: "(int n - k - 1 + 1) mod int n = (if k = 0 then 0 else int n - k)"
    proof (cases "k = 0")
      case True
      then show ?thesis by simp
    next
      case k1: False
      have "(int n - k) mod int n = int n - k"
        using k k1 by (intro mod_pos_pos_trivial) simp_all
      then show ?thesis using k1 by simp
    qed
    have "newItem_index a v = of_int ((sector_under_pointer its v + 1) mod int n)"
      unfolding idx sv m ..
    then show ?thesis using False by (simp add: k_def[symmetric] n_def[symmetric])
  qed
qed

section \<open>The claims\<close>

text \<open>
  All statements below are about the model in which a JavaScript number is a real number:
  they hold of the code up to the rounding of doubles. \<open>r1\<close> and \<open>r2\<close> are the two values
  \<^verbatim>\<open>Math.random()\<close> returns in \<^verbatim>\<open>spinWheel\<close>, both in \<open>[0, 1)\<close>; \<open>now\<close> is the value of
  \<^verbatim>\<open>performance.now()\<close>; \<open>ts\<close> is the list of timestamps of the display frames that
  follow. A spin is accepted when the wheel is idle and has items.
\<close>

subsection \<open>C1: exact landing\<close>

text \<open>
  Claim C1. After an accepted spin the extra turns do not change the sector landed on:
  the final rotation modulo 360 is the base target angle \<open>360 - targetIndex w\<close> modulo 360,
  and the item the sector lookup gives at the final angle is the \<^verbatim>\<open>targetItem\<close> recorded
  at the start of the spin.

  The code does not do this. \<^verbatim>\<open>fullRotations\<close> is \<open>3 + 2 r2\<close>, which is a whole number of
  turns only for \<open>r2 = 0\<close> and \<open>r2 = 1/2\<close>, although the source comments it as
  ``full rotations''. With four items, the wheel at rest at 0, \<open>r1 = 1/2\<close> (target index
  2, item \<open>C\<close>, base target angle 180) and \<open>r2 = 1/4\<close> (three and a half turns), one
  frame past the duration leaves the rotation at 1440, which is 0 modulo 360 and not
  180; the lookup at that angle gives \<open>A\<close>, the store is left with \<open>A\<close> selected, and
  \<open>C\<close> is emitted as the result. (Lemma \<open>landing_exact_for_whole_turns\<close> above is the
  claim for whole numbers of turns.)
\<close>

theorem landing_misses_target:
  "idle (example_wheel 0) \<and> items (example_wheel 0) \<noteq> []
   \<and> targetIndex example_items (1/2) = 2
   \<and> fullRotations (1/4) = 7/2
   \<and> baseTargetAngle example_items (1/2) = 180
   \<and> rotation (run_frames [5000] (spinWheel (1/2) (1/4) 0 (example_wheel 0))) = 1440
   \<and> normalizedRotation (rotation (run_frames [5000] (spinWheel (1/2) (1/4) 0 (example_wheel 0)))) = 0
   \<and> normalizedRotation (baseTargetAngle example_items (1/2)) = 180
   \<and> completions (trace (run_frames [5000] (spinWheel (1/2) (1/4) 0 (example_wheel 0))))
       = [\<lparr>st_name = ''C'', st_lines = []\<rparr>]
   \<and> selectedStation (metroStore (run_frames [5000] (spinWheel (1/2) (1/4) 0 (example_wheel 0))))
       = Some \<lparr>st_name = ''A'', st_lines = []\<rparr>
   \<and> js_index example_items
        (newItem_index (spin_closure example_items 0 (1/2) (1/4) 0)
           (rotation (run_frames [5000] (spinWheel (1/2) (1/4) 0 (example_wheel 0)))))
       = Some \<lparr>st_name = ''A'', st_lines = []\<rparr>"
  unfolding final_example by (simp add: eval_defs)

subsection \<open>C2: monotonic forward rotation\<close>

text \<open>
  Claim C2, as stated: for an accepted spin and frame timestamps that never decrease, the
  rotation values of the frames never decrease, and the total rotation
  \<open>endRotation - startRotation\<close> is strictly greater than three full turns plus the
  minimal non-negative forward angle from the starting rotation to the base target
  angle.

  The second half fails. The code adds the extra turns to the target before it subtracts
  the current angle, so the difference is the signed raw distance plus the turns, and
  the turns may be exactly three. With four items, the wheel at rest at 270, \<open>r1 = 1/2\<close>
  (base target angle 180, forward angle 270) and \<open>r2 = 1/4\<close> (three and a half turns),
  the total rotation is \<open>180 + 1260 - 270 = 1170\<close>, not more than \<open>1080 + 270\<close>.
\<close>

theorem forward_rotation_counterexample:
  "idle (example_wheel 270) \<and> items (example_wheel 270) \<noteq> []
   \<and> endRotation (spin_closure (items (example_wheel 270)) (rotation (example_wheel 270)) (1/2) (1/4) 0)
       - startRotation (spin_closure (items (example_wheel 270)) (rotation (example_wheel 270)) (1/2) (1/4) 0) = 1170
   \<and> forward_angle (normalizedRotation (rotation (example_wheel 270))) (baseTargetAngle (items (example_wheel 270)) (1/2)) = 270
   \<and> \<not> (3 * 360 + forward_angle (normalizedRotation (rotation (example_wheel 270)))
                     (baseTargetAngle (items (example_wheel 270)) (1/2))
          < endRotation (spin_closure (items (example_wheel 270)) (rotation (example_wheel 270)) (1/2) (1/4) 0)
            - startRotation (spin_closure (items (example_wheel 270)) (rotation (example_wheel 270)) (1/2) (1/4) 0))"
  by (simp add: idle_def example_wheel_def example_items_def spin_closure_def Let_def raw_angleDiff_def
      targetAngle_def baseTargetAngle_def targetIndex_def fullRotations_def normalizedRotation_def
      js_rem_def js_floor_def js_length_def forward_angle_def)

text \<open>
  Claim C2, amended: for an accepted spin and frame timestamps that never decrease, the
  rotation values of the frames never decrease, and the total rotation is strictly
  greater than two full turns and at least two full turns plus the minimal non-negative
  forward angle from the starting rotation to the base target angle.
\<close>

theorem forward_rotation:
  assumes "idle w" and "items w \<noteq> []" and "0 \<le> r1" and "r1 < 1" and "0 \<le> r2" and "r2 < 1"
    and "sorted ts"
  shows "sorted (frame_rotations ts (spinWheel r1 r2 now w))
       \<and> 2 * 360 < endRotation (spin_closure (items w) (rotation w) r1 r2 now)
                     - startRotation (spin_closure (items w) (rotation w) r1 r2 now)
       \<and> 2 * 360 + forward_angle (normalizedRotation (rotation w)) (baseTargetAngle (items w) r1)
           \<le> endRotation (spin_closure (items w) (rotation w) r1 r2 now)
               - startRotation (spin_closure (items w) (rotation w) r1 r2 now)"
proof -
  let ?a = "spin_closure (items w) (rotation w) r1 r2 now"
  note pos = spin_closure_positive[OF assms(2-5), of "rotation w" now]
  have fl: "in_flight ?a (spinWheel r1 r2 now w)"
    by (rule spinWheel_in_flight(1)[OF assms(1,2)])
  obtain k where k: "frame_rotations ts (spinWheel r1 r2 now w) = map (currentRotationValue ?a) (take k ts)"
    using frame_rotations_in_flight[OF fl] ..
  have mono: "\<And>x y. x \<le> y \<Longrightarrow> currentRotationValue ?a x \<le> currentRotationValue ?a y"
    using pos by (intro currentRotationValue_mono) simp_all
  have 1: "sorted (frame_rotations ts (spinWheel r1 r2 now w))"
    unfolding k using assms(7) mono by (rule sorted_map_take)
  have d: "endRotation ?a - startRotation ?a = angleDiff ?a" by (simp add: spin_closure_simps(6))
  have 2: "2 * 360 < endRotation ?a - startRotation ?a" unfolding d using pos(1) by simp
  have 3: "2 * 360 + forward_angle (normalizedRotation (rotation w)) (baseTargetAngle (items w) r1)
           \<le> endRotation ?a - startRotation ?a"
    unfolding d by (rule total_delta_lower[OF assms(2-5)])
  from 1 2 3 show ?thesis by blast
qed

theorem forward_rotation_witness:
  "sorted (frame_rotations [100, 1000, 5000] (spinWheel (1/2) (1/2) 0 (example_wheel 10)))
   \<and> 2 * 360 < endRotation (spin_closure (items (example_wheel 10)) (rotation (example_wheel 10)) (1/2) (1/2) 0)
                 - startRotation (spin_closure (items (example_wheel 10)) (rotation (example_wheel 10)) (1/2) (1/2) 0)
   \<and> 2 * 360 + forward_angle (normalizedRotation (rotation (example_wheel 10)))
                  (baseTargetAngle (items (example_wheel 10)) (1/2))
       \<le> endRotation (spin_closure (items (example_wheel 10)) (rotation (example_wheel 10)) (1/2) (1/2) 0)
           - startRotation (spin_closure (items (example_wheel 10)) (rotation (example_wheel 10)) (1/2) (1/2) 0)"
  by (rule forward_rotation[OF example_accepted(1,2,3,4,3,4,5)])

subsection \<open>C3: the live highlight\<close>

text \<open>
  Claim C3. At every frame the item reported to the store as highlighted is the item
  whose sector is under the pointer: for the live rotation \<open>r\<close>, the index \<open>i\<close> with
  \<open>(360 - r) mod 360\<close> in \<open>[i w, (i + 1) w)\<close>, \<open>w = 360 / items.length\<close>.

  The code does not do this. Both \<^verbatim>\<open>animate\<close> and \<^verbatim>\<open>updateCurrentItem\<close> read the item
  at \<open>(n - \<lfloor>(r mod 360) / w\<rfloor>) mod n\<close>, which is the sector under the pointer only when
  the rotation is on a sector boundary and the next sector otherwise (lemma
  \<open>highlight_versus_pointer\<close> above). With four items, the spin of C1 and one frame at
  1000 ms, the rotation is 160: the wheel angle under the pointer is 200, inside sector
  2 (item \<open>C\<close>), and the item highlighted is \<open>D\<close>.
\<close>

theorem highlight_not_under_pointer:
  "rotation (run_frames [1000] (spinWheel (1/2) (1/4) 0 (example_wheel 0))) = 160
   \<and> selectedStation (metroStore (run_frames [1000] (spinWheel (1/2) (1/4) 0 (example_wheel 0))))
       = Some \<lparr>st_name = ''D'', st_lines = []\<rparr>
   \<and> selectedStation (metroStore (updateCurrentItem (example_wheel 160)))
       = Some \<lparr>st_name = ''D'', st_lines = []\<rparr>
   \<and> pointer_angle 160 = 200
   \<and> sector_under_pointer example_items 160 = 2
   \<and> example_items ! nat (sector_under_pointer example_items 160) = \<lparr>st_name = ''C'', st_lines = []\<rparr>"
  unfolding mid_example by (simp add: eval_defs)

subsection \<open>C4: a rejected call is a no-op\<close>

text \<open>
  Claim C4. A call of \<^verbatim>\<open>spinWheel\<close> when the item list is empty or an animation is
  running changes nothing: no animation is started (no callback is requested), no
  completion is emitted, the animation flag keeps its value (so it stays false on empty
  input), and the frames that follow give the same rotations and the same wheel as
  without the call.
\<close>

theorem rejected_spin_noop:
  assumes "items w = [] \<or> isAnimating w"
  shows "spinWheel r1 r2 now w = w
       \<and> isAnimating (spinWheel r1 r2 now w) = isAnimating w
       \<and> pending (spinWheel r1 r2 now w) = pending w
       \<and> completions (trace (spinWheel r1 r2 now w)) = completions (trace w)
       \<and> frame_rotations ts (spinWheel r1 r2 now w) = frame_rotations ts w
       \<and> run_frames ts (spinWheel r1 r2 now w) = run_frames ts w"
proof -
  have "spinWheel r1 r2 now w = w" using assms by (auto simp: spinWheel_def)
  then show ?thesis by simp
qed

theorem rejected_spin_noop_witness:
  "spinWheel (1/2) (1/4) 0 ((example_wheel 0)\<lparr>items := []\<rparr>) = (example_wheel 0)\<lparr>items := []\<rparr>
   \<and> \<not> isAnimating (spinWheel (1/2) (1/4) 0 ((example_wheel 0)\<lparr>items := []\<rparr>))
   \<and> spinWheel (1/4) (3/4) 500 (spinWheel (1/2) (1/4) 0 (example_wheel 0))
       = spinWheel (1/2) (1/4) 0 (example_wheel 0)
   \<and> pending (spinWheel (1/4) (3/4) 500 (spinWheel (1/2) (1/4) 0 (example_wheel 0)))
       = pending (spinWheel (1/2) (1/4) 0 (example_wheel 0))
   \<and> completions (trace (spinWheel (1/4) (3/4) 500 (spinWheel (1/2) (1/4) 0 (example_wheel 0))))
       = completions (trace (spinWheel (1/2) (1/4) 0 (example_wheel 0)))
   \<and> frame_rotations [1000, 5000] (spinWheel (1/4) (3/4) 500 (spinWheel (1/2) (1/4) 0 (example_wheel 0)))
       = frame_rotations [1000, 5000] (spinWheel (1/2) (1/4) 0 (example_wheel 0))
   \<and> run_frames [1000, 5000] (spinWheel (1/4) (3/4) 500 (spinWheel (1/2) (1/4) 0 (example_wheel 0)))
       = run_frames [1000, 5000] (spinWheel (1/2) (1/4) 0 (example_wheel 0))"
proof -
  have empty: "items ((example_wheel 0)\<lparr>items := []\<rparr>) = []
               \<or> isAnimating ((example_wheel 0)\<lparr>items := []\<rparr>)"
    by simp
  have running: "items (spinWheel (1/2) (1/4) 0 (example_wheel 0)) = []
                 \<or> isAnimating (spinWheel (1/2) (1/4) 0 (example_wheel 0))"
    by (simp add: spin_example)
  have still: "\<not> isAnimating ((example_wheel 0)\<lparr>items := []\<rparr>)"
    by (simp add: example_wheel_def)
  from rejected_spin_noop[OF empty, of "1/2" "1/4" 0 "[]"] still
    rejected_spin_noop[OF running, of "1/4" "3/4" 500 "[1000, 5000]"]
  show ?thesis by simp
qed

subsection \<open>C5: one completion per spin\<close>

text \<open>
  Claim C5. An accepted spin emits exactly one completion: whatever frames follow, at
  most one completion is added to the trace; and once a frame comes at or after
  \<open>now + duration\<close>, the events of the spin end with the last write of the rotation, the
  reset of the animation flag and the completion carrying the target item, in this
  order, with no completion before them. The wheel is then idle again.
\<close>

theorem single_completion:
  assumes "idle w" and "items w \<noteq> []" and "0 \<le> r1" and "r1 < 1" and "0 \<le> r2" and "r2 < 1"
  shows "(\<exists>es. trace (run_frames ts (spinWheel r1 r2 now w)) = trace w @ es
              \<and> length (completions es) \<le> 1)
       \<and> ((\<exists>t \<in> set ts. now + duration (spin_closure (items w) (rotation w) r1 r2 now) \<le> t) \<longrightarrow>
            (\<exists>es. trace (run_frames ts (spinWheel r1 r2 now w)) =
                    trace w @ es @ [SetRotation (endRotation (spin_closure (items w) (rotation w) r1 r2 now)),
                                    SetAnimating False,
                                    SpinComplete (items w ! nat \<lfloor>r1 * js_length (items w)\<rfloor>)]
                  \<and> completions es = [])
            \<and> \<not> isAnimating (run_frames ts (spinWheel r1 r2 now w))
            \<and> pending (run_frames ts (spinWheel r1 r2 now w)) = [])"
proof -
  let ?a = "spin_closure (items w) (rotation w) r1 r2 now"
  let ?w1 = "spinWheel r1 r2 now w"
  let ?target = "items w ! nat \<lfloor>r1 * js_length (items w)\<rfloor>"
  have fl: "in_flight ?a ?w1" by (rule spinWheel_in_flight(1)[OF assms(1,2)])
  have tr1: "trace ?w1 = trace w @ [SetAnimating True]"
    unfolding spinWheel_in_flight(2)[OF assms(1,2)] by simp
  have dur: "0 < duration ?a" by (rule spin_closure_positive(2)[OF assms(2-5)])
  have tgt: "targetItem ?a = Some ?target"
    using target_item_defined(3)[OF assms(2-4)] by (simp add: spin_closure_simps)
  have fin: "\<And>t. (\<not> progress_at ?a t < 1) \<longleftrightarrow> now + duration ?a \<le> t"
    using final_frame_iff[OF dur] by (simp add: spin_closure_simps(4))
  have B: "(\<exists>es. trace (run_frames ts ?w1) =
                    trace w @ es @ [SetRotation (endRotation ?a), SetAnimating False, SpinComplete ?target]
                  \<and> completions es = [])
            \<and> \<not> isAnimating (run_frames ts ?w1) \<and> pending (run_frames ts ?w1) = []"
    if ex: "\<exists>t \<in> set ts. now + duration ?a \<le> t"
  proof -
    from ex have ex': "\<exists>t \<in> set ts. \<not> progress_at ?a t < 1" by (simp add: fin)
    from run_frames_complete(1)[OF fl ex'] obtain es where
      es: "trace (run_frames ts ?w1) =
             trace ?w1 @ es @ [SetRotation (endRotation ?a), SetAnimating False] @ [SpinComplete ?target]"
          "completions es = []"
      by (auto simp: tgt)
    have "trace (run_frames ts ?w1) =
            trace w @ (SetAnimating True # es) @ [SetRotation (endRotation ?a), SetAnimating False, SpinComplete ?target]"
      "completions (SetAnimating True # es) = []"
      using es by (simp_all add: tr1)
    then have "\<exists>es. trace (run_frames ts ?w1) =
                    trace w @ es @ [SetRotation (endRotation ?a), SetAnimating False, SpinComplete ?target]
                  \<and> completions es = []"
      by blast
    moreover have "\<not> isAnimating (run_frames ts ?w1) \<and> pending (run_frames ts ?w1) = []"
      using run_frames_complete(2)[OF fl ex'] by (simp add: idle_def)
    ultimately show ?thesis by blast
  qed
  have A: "\<exists>es. trace (run_frames ts ?w1) = trace w @ es \<and> length (completions es) \<le> 1"
  proof (cases "\<exists>t \<in> set ts. now + duration ?a \<le> t")
    case True
    from B[OF True] obtain es where
      "trace (run_frames ts ?w1) =
         trace w @ (es @ [SetRotation (endRotation ?a), SetAnimating False, SpinComplete ?target])"
      "completions es = []"
      by auto
    moreover from this(2)
    have "length (completions (es @ [SetRotation (endRotation ?a), SetAnimating False, SpinComplete ?target])) \<le> 1"
      by (simp add: completions_append)
    ultimately show ?thesis by blast
  next
    case False
    then have "\<forall>t \<in> set ts. progress_at ?a t < 1" using fin by blast
    from run_frames_continue[OF fl this] obtain es where
      "trace (run_frames ts ?w1) = trace ?w1 @ es" "completions es = []"
      by blast
    then have "trace (run_frames ts ?w1) = trace w @ (SetAnimating True # es)"
      "length (completions (SetAnimating True # es)) \<le> 1"
      by (simp_all add: tr1)
    then show ?thesis by blast
  qed
  from A B show ?thesis by blast
qed

theorem single_completion_witness:
  "(\<exists>t \<in> set [100, 1000, 5000].
       0 + duration (spin_closure (items (example_wheel 10)) (rotation (example_wheel 10)) (1/2) (1/2) 0) \<le> t)
   \<and> (\<exists>es. trace (run_frames [100, 1000, 5000] (spinWheel (1/2) (1/2) 0 (example_wheel 10))) =
              trace (example_wheel 10) @ es
                @ [SetRotation (endRotation (spin_closure (items (example_wheel 10)) (rotation (example_wheel 10)) (1/2) (1/2) 0)),
                   SetAnimating False,
                   SpinComplete (items (example_wheel 10) ! nat \<lfloor>1/2 * js_length (items (example_wheel 10))\<rfloor>)]
            \<and> completions es = [])
   \<and> \<not> isAnimating (run_frames [100, 1000, 5000] (spinWheel (1/2) (1/2) 0 (example_wheel 10)))
   \<and> pending (run_frames [100, 1000, 5000] (spinWheel (1/2) (1/2) 0 (example_wheel 10))) = []"
proof -
  have ex: "\<exists>t \<in> set [100, 1000, 5000].
       0 + duration (spin_closure (items (example_wheel 10)) (rotation (example_wheel 10)) (1/2) (1/2) 0) \<le> t"
    by (simp add: example_closure)
  from single_completion[OF example_accepted(1,2,3,4,3,4), of "[100, 1000, 5000]" 0] ex
  show ?thesis by blast
qed

subsection \<open>C6: indices in range\<close>

text \<open>
  Claim C6, as stated: for a non-empty item list and a draw \<open>r1\<close> in \<open>[0, 1)\<close>, the target
  index \<open>\<lfloor>r1 n\<rfloor>\<close> lies in \<open>[0, n)\<close> and \<^verbatim>\<open>targetItem\<close> is an element of the list; and
  every per-frame sector index lies in \<open>[0, items.length)\<close>, so no array read on the spin
  path is out of bounds.

  The second half fails when the host replaces the list during the spin. \<^verbatim>\<open>animate\<close>
  computes its index from the \<^verbatim>\<open>totalItems\<close> and \<^verbatim>\<open>sliceAngle\<close> captured when the spin
  started and reads the live \<^verbatim>\<open>props.items\<close>. With four items at the start, \<open>r1 = r2 = 1/2\<close>
  and the list replaced by one of two items, the frame stamped 3100 computes index 3:
  the read is outside the live list and yields \<^verbatim>\<open>undefined\<close>. The guard
  \<^verbatim>\<open>if (newItem)\<close> then skips the highlight: the frame only writes the rotation.
\<close>

theorem sector_index_in_range_counterexample:
  "idle (example_wheel 0) \<and> items (example_wheel 0) \<noteq> []
   \<and> isAnimating (set_items example_two_items (spinWheel (1/2) (1/2) 0 (example_wheel 0)))
   \<and> pending (set_items example_two_items (spinWheel (1/2) (1/2) 0 (example_wheel 0)))
       = [spin_closure example_items 0 (1/2) (1/2) 0]
   \<and> items (set_items example_two_items (spinWheel (1/2) (1/2) 0 (example_wheel 0))) = example_two_items
   \<and> js_length example_two_items = 2
   \<and> newItem_index (spin_closure example_items 0 (1/2) (1/2) 0)
         (currentRotationValue (spin_closure example_items 0 (1/2) (1/2) 0) 3100) = 3
   \<and> \<not> newItem_index (spin_closure example_items 0 (1/2) (1/2) 0)
           (currentRotationValue (spin_closure example_items 0 (1/2) (1/2) 0) 3100)
         < js_length (items (set_items example_two_items (spinWheel (1/2) (1/2) 0 (example_wheel 0))))
   \<and> js_index (items (set_items example_two_items (spinWheel (1/2) (1/2) 0 (example_wheel 0))))
        (newItem_index (spin_closure example_items 0 (1/2) (1/2) 0)
           (currentRotationValue (spin_closure example_items 0 (1/2) (1/2) 0) 3100)) = None
   \<and> trace (frame 3100 (set_items example_two_items (spinWheel (1/2) (1/2) 0 (example_wheel 0))))
       = trace (set_items example_two_items (spinWheel (1/2) (1/2) 0 (example_wheel 0)))
         @ [SetRotation (currentRotationValue (spin_closure example_items 0 (1/2) (1/2) 0) 3100)]"
  by code_simp

text \<open>
  Claim C6, amended: for a non-empty item list and a draw \<open>r1\<close> in \<open>[0, 1)\<close>, the target
  index \<open>\<lfloor>r1 n\<rfloor>\<close> lies in \<open>[0, n)\<close> and \<^verbatim>\<open>targetItem\<close> is an element of the list; for
  every rotation value of a frame, \<^verbatim>\<open>currentIndex\<close> and the index \<^verbatim>\<open>animate\<close> reads at lie
  in \<open>[0, n)\<close>, where \<open>n\<close> is the length of the list when the spin started; the read from
  that list yields an element, and the read from whatever list is live yields an element
  exactly when the index is below the live list's length and \<^verbatim>\<open>undefined\<close> otherwise;
  the read of the watcher \<^verbatim>\<open>updateCurrentItem\<close> yields an element whenever the live list
  has items.
\<close>

theorem sector_index_in_range:
  assumes "its \<noteq> []" and "0 \<le> r1" and "r1 < 1"
  shows "0 \<le> targetIndex its r1 \<and> targetIndex its r1 < js_length its
       \<and> (\<exists>i < length its. targetIndex its r1 = real i
             \<and> targetItem (spin_closure its rot r1 r2 now) = Some (its ! i))
       \<and> (\<forall>v (live :: MetroStation list).
             0 \<le> currentIndex (spin_closure its rot r1 r2 now) v
             \<and> currentIndex (spin_closure its rot r1 r2 now) v < js_length its
             \<and> 0 \<le> newItem_index (spin_closure its rot r1 r2 now) v
             \<and> newItem_index (spin_closure its rot r1 r2 now) v < js_length its
             \<and> (\<exists>j < length its. newItem_index (spin_closure its rot r1 r2 now) v = real j
                   \<and> js_index its (newItem_index (spin_closure its rot r1 r2 now) v) = Some (its ! j)
                   \<and> js_index live (newItem_index (spin_closure its rot r1 r2 now) v)
                       = (if j < length live then Some (live ! j) else None))
             \<and> ((js_index live (js_rem (js_length live
                                           - js_floor (normalizedRotation v / (360 / js_length live)))
                                         (js_length live)) \<noteq> None) = (live \<noteq> [])))"
proof -
  let ?a = "spin_closure its rot r1 r2 now"
  note ti = target_item_defined[OF assms]
  have n: "0 < length its" using assms(1) by simp
  have 1: "0 \<le> targetIndex its r1 \<and> targetIndex its r1 < js_length its"
    using ti(1,2) by (simp add: js_length_def)
  have 2: "\<exists>i < length its. targetIndex its r1 = real i \<and> targetItem ?a = Some (its ! i)"
    using ti by (auto simp: spin_closure_simps)
  have 3: "0 \<le> currentIndex ?a v \<and> currentIndex ?a v < js_length its
       \<and> 0 \<le> newItem_index ?a v \<and> newItem_index ?a v < js_length its
       \<and> (\<exists>j < length its. newItem_index ?a v = real j
             \<and> js_index its (newItem_index ?a v) = Some (its ! j)
             \<and> js_index live (newItem_index ?a v) = (if j < length live then Some (live ! j) else None))
       \<and> ((js_index live (js_rem (js_length live
                                     - js_floor (normalizedRotation v / (360 / js_length live)))
                                   (js_length live)) \<noteq> None) = (live \<noteq> []))"
    for v and live :: "MetroStation list"
  proof -
    obtain j where j: "j < length its" "newItem_index ?a v = real j"
        "js_index its (newItem_index ?a v) = Some (its ! j)"
      using frame_item_defined[OF assms(1), of ?a v] by (auto simp: spin_closure_simps)
    have lv: "js_index live (newItem_index ?a v) = (if j < length live then Some (live ! j) else None)"
      unfolding j(2) by (rule js_index_nat)
    define k where "k = \<lfloor>normalizedRotation v / (360 / real (length its))\<rfloor>"
    have k: "0 \<le> k" "k < int (length its)"
      using sector_floor_range[OF n, of v] by (simp_all add: k_def)
    have "currentIndex ?a v = of_int k"
      unfolding k_def by (rule frame_index_eq(1)[OF n]) (simp_all add: spin_closure_simps js_length_def)
    moreover have "0 \<le> real_of_int k" "real_of_int k < real (length its)" using k by linarith+
    ultimately have c: "0 \<le> currentIndex ?a v \<and> currentIndex ?a v < js_length its"
      by (simp add: js_length_def)
    have b: "0 \<le> newItem_index ?a v \<and> newItem_index ?a v < js_length its"
      using j(1,2) by (simp add: js_length_def)
    have e: "\<exists>j < length its. newItem_index ?a v = real j
             \<and> js_index its (newItem_index ?a v) = Some (its ! j)
             \<and> js_index live (newItem_index ?a v) = (if j < length live then Some (live ! j) else None)"
      by (rule exI[of _ j]) (intro conjI j lv)
    note w = watcher_read_live[of live v]
    show ?thesis
      by (rule conjI[OF conjunct1[OF c] conjI[OF conjunct2[OF c]
            conjI[OF conjunct1[OF b] conjI[OF conjunct2[OF b] conjI[OF e w]]]]])
  qed
  have 4: "\<forall>v (live :: MetroStation list).
       0 \<le> currentIndex ?a v \<and> currentIndex ?a v < js_length its
       \<and> 0 \<le> newItem_index ?a v \<and> newItem_index ?a v < js_length its
       \<and> (\<exists>j < length its. newItem_index ?a v = real j
             \<and> js_index its (newItem_index ?a v) = Some (its ! j)
             \<and> js_index live (newItem_index ?a v) = (if j < length live then Some (live ! j) else None))
       \<and> ((js_index live (js_rem (js_length live
                                     - js_floor (normalizedRotation v / (360 / js_length live)))
                                   (js_length live)) \<noteq> None) = (live \<noteq> []))"
    by (intro allI) (rule 3)
  show ?thesis
    by (rule conjI[OF conjunct1[OF 1] conjI[OF conjunct2[OF 1] conjI[OF 2 4]]])
qed

theorem sector_index_in_range_witness:
  "0 \<le> targetIndex example_items (1/2) \<and> targetIndex example_items (1/2) < js_length example_items
   \<and> (\<exists>i < length example_items. targetIndex example_items (1/2) = real i
         \<and> targetItem (spin_closure example_items 10 (1/2) (1/2) 0) = Some (example_items ! i))
   \<and> (\<forall>v (live :: MetroStation list).
         0 \<le> currentIndex (spin_closure example_items 10 (1/2) (1/2) 0) v
         \<and> currentIndex (spin_closure example_items 10 (1/2) (1/2) 0) v < js_length example_items
         \<and> 0 \<le> newItem_index (spin_closure example_items 10 (1/2) (1/2) 0) v
         \<and> newItem_index (spin_closure example_items 10 (1/2) (1/2) 0) v < js_length example_items
         \<and> (\<exists>j < length example_items. newItem_index (spin_closure example_items 10 (1/2) (1/2) 0) v = real j
               \<and> js_index example_items (newItem_index (spin_closure example_items 10 (1/2) (1/2) 0) v)
                   = Some (example_items ! j)
               \<and> js_index live (newItem_index (spin_closure example_items 10 (1/2) (1/2) 0) v)
                   = (if j < length live then Some (live ! j) else None))
         \<and> ((js_index live (js_rem (js_length live
                                       - js_floor (normalizedRotation v / (360 / js_length live)))
                                     (js_length live)) \<noteq> None) = (live \<noteq> [])))"
proof -
  have h: "example_items \<noteq> []" by (simp add: example_items_def)
  show ?thesis by (rule sector_index_in_range[OF h example_accepted(3,4)])
qed

subsection \<open>C7: easing and the angle of a frame\<close>

text \<open>
  Claim C7. At every frame of an accepted spin that is still in flight, with
  \<open>progress = min (elapsed / duration) 1\<close>, the rotation is set to
  \<open>startAngle + angleDelta * eased\<close>, where \<open>eased\<close> is \<open>3 progress\<^sup>3\<close> for \<open>progress < 1/2\<close>
  and \<open>1 - (-2 progress + 2)\<^sup>4 / 2\<close> otherwise; the code's easing expression is that
  function. This includes the last frame, where the rotation is set to \<^verbatim>\<open>endRotation\<close>.
\<close>

theorem easing_frame_update:
  assumes "idle w" and "items w \<noteq> []" and "0 \<le> r1" and "r1 < 1" and "0 \<le> r2" and "r2 < 1"
    and "\<forall>t' \<in> set ts. t' < now + duration (spin_closure (items w) (rotation w) r1 r2 now)"
  shows "rotation (frame t (run_frames ts (spinWheel r1 r2 now w))) =
           startRotation (spin_closure (items w) (rotation w) r1 r2 now)
           + angleDiff (spin_closure (items w) (rotation w) r1 r2 now)
             * eased_spec (min ((t - now) / duration (spin_closure (items w) (rotation w) r1 r2 now)) 1)
       \<and> startRotation (spin_closure (items w) (rotation w) r1 r2 now) = rotation w
       \<and> easedProgress p = eased_spec p"
proof -
  let ?a = "spin_closure (items w) (rotation w) r1 r2 now"
  have fl: "in_flight ?a (spinWheel r1 r2 now w)" by (rule spinWheel_in_flight(1)[OF assms(1,2)])
  have dur: "0 < duration ?a" by (rule spin_closure_positive(2)[OF assms(2-5)])
  have fin: "\<And>t. (\<not> progress_at ?a t < 1) \<longleftrightarrow> now + duration ?a \<le> t"
    using final_frame_iff[OF dur] by (simp add: spin_closure_simps(4))
  have "\<forall>t' \<in> set ts. progress_at ?a t' < 1"
  proof
    fix t' assume "t' \<in> set ts"
    with assms(7) have "\<not> now + duration ?a \<le> t'" by auto
    with fin[of t'] show "progress_at ?a t' < 1" by blast
  qed
  then have "in_flight ?a (run_frames ts (spinWheel r1 r2 now w))"
    using run_frames_continue[OF fl] by blast
  then have "rotation (frame t (run_frames ts (spinWheel r1 r2 now w))) = currentRotationValue ?a t"
    by (rule frame_rotation)
  then show ?thesis
    by (simp add: currentRotationValue_def progress_at_def easedProgress_spec spin_closure_simps(4,5))
qed

theorem easing_frame_update_witness:
  "rotation (frame 1000 (run_frames [100] (spinWheel (1/2) (1/2) 0 (example_wheel 10)))) =
     startRotation (spin_closure (items (example_wheel 10)) (rotation (example_wheel 10)) (1/2) (1/2) 0)
     + angleDiff (spin_closure (items (example_wheel 10)) (rotation (example_wheel 10)) (1/2) (1/2) 0)
       * eased_spec (min ((1000 - 0) / duration (spin_closure (items (example_wheel 10)) (rotation (example_wheel 10)) (1/2) (1/2) 0)) 1)
   \<and> startRotation (spin_closure (items (example_wheel 10)) (rotation (example_wheel 10)) (1/2) (1/2) 0)
       = rotation (example_wheel 10)
   \<and> easedProgress (1/4) = eased_spec (1/4)"
proof -
  have h: "\<forall>t' \<in> set [100].
      t' < 0 + duration (spin_closure (items (example_wheel 10)) (rotation (example_wheel 10)) (1/2) (1/2) 0)"
    by (simp add: example_closure)
  show ?thesis by (rule easing_frame_update[OF example_accepted(1,2,3,4,3,4) h])
qed

subsection \<open>C8: the station index\<close>


subsection \<open>C9: the first spin in double mode\<close>

text \<open>
  Claim C9. When the store's \<^verbatim>\<open>spin\<close> completes in double mode with no line selected,
  the line it has drawn is stored as the selected line; the selected station, the mode
  and the data are unchanged, and the spinning flag is cleared: no second spin is
  started.
\<close>

theorem double_mode_first_spin:
  assumes "mode st = Some Double" and "selectedLine st = None" and "0 \<le> r" and "r < 1"
  shows "spin_resume r st = st\<lparr>selectedLine := selectRandomLine r st, isSpinning := False\<rparr>
       \<and> selectedLine (spin_resume r st) =
            (if metroData st = [] then None else Some (metroData st ! nat \<lfloor>r * js_length (metroData st)\<rfloor>))
       \<and> selectedStation (spin_resume r st) = selectedStation st
       \<and> mode (spin_resume r st) = mode st
       \<and> metroData (spin_resume r st) = metroData st
       \<and> stationIndex (spin_resume r st) = stationIndex st
       \<and> isInitialized (spin_resume r st) = isInitialized st
       \<and> \<not> isSpinning (spin_resume r st)"
proof -
  have 1: "spin_resume r st = st\<lparr>selectedLine := selectRandomLine r st, isSpinning := False\<rparr>"
    using assms(1,2) by (simp add: spin_resume_def)
  have 2: "selectRandomLine r st =
      (if metroData st = [] then None else Some (metroData st ! nat \<lfloor>r * js_length (metroData st)\<rfloor>))"
    using getRandomElement_in_range(2)[OF _ assms(3,4), of "metroData st"]
    by (simp add: selectRandomLine_def)
  show ?thesis unfolding 1 using 2 by simp
qed

theorem double_mode_first_spin_witness:
  "spin_resume (1/2) example_store
     = example_store\<lparr>selectedLine := selectRandomLine (1/2) example_store, isSpinning := False\<rparr>
   \<and> selectedLine (spin_resume (1/2) example_store) =
        (if metroData example_store = [] then None
         else Some (metroData example_store ! nat \<lfloor>1/2 * js_length (metroData example_store)\<rfloor>))
   \<and> selectedStation (spin_resume (1/2) example_store) = selectedStation example_store
   \<and> mode (spin_resume (1/2) example_store) = mode example_store
   \<and> metroData (spin_resume (1/2) example_store) = metroData example_store
   \<and> stationIndex (spin_resume (1/2) example_store) = stationIndex example_store
   \<and> isInitialized (spin_resume (1/2) example_store) = isInitialized example_store
   \<and> \<not> isSpinning (spin_resume (1/2) example_store)"
proof -
  have h: "mode example_store = Some Double" "selectedLine example_store = None"
      "(0::real) \<le> 1/2" "(1/2::real) < 1"
    by (simp_all add: example_store_def)
  show ?thesis by (rule double_mode_first_spin[OF h])
qed

subsection \<open>C10: the dead normalisation branch\<close>

text \<open>
  Claim C10. In an accepted spin the difference \<^verbatim>\<open>targetAngle - currentAngle\<close> is
  positive before the test \<^verbatim>\<open>angleDiff < 0\<close> is made, because the extra turns are
  already in \<^verbatim>\<open>targetAngle\<close> and \<^verbatim>\<open>currentAngle\<close> is below 360. The branch that adds
  360 is never taken, and \<^verbatim>\<open>angleDiff\<close> exceeds two full turns.
\<close>

theorem angleDiff_branch_dead:
  assumes "its \<noteq> []" and "0 \<le> r1" and "r1 < 1" and "0 \<le> r2" and "r2 < 1"
  shows "0 < raw_angleDiff its rot r1 r2
       \<and> \<not> raw_angleDiff its rot r1 r2 < 0
       \<and> angleDiff (spin_closure its rot r1 r2 now) = raw_angleDiff its rot r1 r2
       \<and> 2 * 360 < angleDiff (spin_closure its rot r1 r2 now)"
  using raw_angleDiff_lower[OF assms(1-4), of rot] by (simp add: spin_closure_simps)

theorem angleDiff_branch_dead_witness:
  "0 < raw_angleDiff example_items 270 (1/2) 0
   \<and> \<not> raw_angleDiff example_items 270 (1/2) 0 < 0
   \<and> angleDiff (spin_closure example_items 270 (1/2) 0 0) = raw_angleDiff example_items 270 (1/2) 0
   \<and> 2 * 360 < angleDiff (spin_closure example_items 270 (1/2) 0 0)"
proof -
  have h: "example_items \<noteq> []" "(0::real) \<le> 1/2" "(1/2::real) < 1" "(0::real) \<le> 0" "(0::real) < 1"
    by (simp_all add: example_items_def)
  show ?thesis by (rule angleDiff_branch_dead[OF h])
qed

end
